theory Spec2Isabelle
  imports Main
begin

section \<open>Task status: the poller component and the polling hook\<close>

text \<open>
  \<^verbatim>\<open>api-types.ts\<close>: \<^verbatim>\<open>interface TaskStatus { task_id: string; status: ...; result?: string }\<close>.
  The declared type of \<^verbatim>\<open>status\<close> is a union of four string literals, but the value is
  whatever the backend's JSON holds, so the field is a string here.
\<close>

record TaskStatus =
  task_id :: string
  status :: string
  result :: "string option"

text \<open>
  \<^verbatim>\<open>task-status-poller.tsx\<close>, \<^verbatim>\<open>checkTaskStatus\<close>. The argument is the query's
  \<^verbatim>\<open>data\<close> (\<open>None\<close> while it is undefined); the result is the argument handed to
  \<^verbatim>\<open>onStatusChange\<close>, \<open>None\<close> when the callback is not called.
\<close>

definition checkTaskStatus :: "TaskStatus option \<Rightarrow> string option" where
  "checkTaskStatus taskStatus =
     (case taskStatus of
        None \<Rightarrow> None
      | Some t \<Rightarrow>
          Some (if status t = ''completed'' then ''done''
                else if status t = ''failed'' then ''failed''
                else if status t = ''pending'' then ''pending''
                else ''processing''))"

text \<open>
  \<^verbatim>\<open>useMedia.ts\<close>, the \<^verbatim>\<open>refetchInterval\<close> callback of \<^verbatim>\<open>useTaskStatus\<close>. It returns
  \<^verbatim>\<open>false\<close> or a number of milliseconds.
\<close>

datatype refetch = Stop | Every nat

definition refetchInterval :: "TaskStatus option \<Rightarrow> refetch" where
  "refetchInterval data =
     (case data of
        None \<Rightarrow> Stop
      | Some d \<Rightarrow>
          if status d = ''completed'' \<or> status d = ''failed'' then Stop
          else if status d = ''pending'' \<or> status d = ''processing'' then Every 2000
          else Stop)"

text \<open>
  The callback is called by the query library, which is not part of the repository.
  Its interval timer is read as follows: the query fetches once when it is enabled, and
  after each fetch the callback is asked with the data just fetched; a number schedules
  one more fetch, \<^verbatim>\<open>false\<close> schedules none. \<open>poll answers\<close> takes the answers the
  backend would give to successive fetches and returns the ones that are fetched.
\<close>

fun poll :: "TaskStatus list \<Rightarrow> TaskStatus list" where
  "poll [] = []"
| "poll (d # ds) =
     d # (case refetchInterval (Some d) of Stop \<Rightarrow> [] | Every ms \<Rightarrow> poll ds)"


section \<open>The chat store\<close>

text \<open>
  \<^verbatim>\<open>chatStore.ts\<close>. A recorded function call is a name with its arguments; the
  arguments are a JSON object the client never inspects, so their type is a parameter.
  The optional \<^verbatim>\<open>function_calls\<close> array is \<open>None\<close> while the property is absent.
\<close>

datatype role = User | Assistant

record 'a Message =
  msg_id :: int
  msg_role :: role
  content :: string
  msg_created_at :: string
  function_calls :: "(string \<times> 'a) list option"

record Conversation =
  conv_id :: string
  title :: "string option"
  created_at :: string
  updated_at :: "string option"

record 'a ChatState =
  currentConversation :: "Conversation option"
  messages :: "'a Message list"
  isStreaming :: bool

text \<open>\<^verbatim>\<open>Array.prototype.map\<close> with the callback's second argument, the index.\<close>

definition map_idx :: "('b \<Rightarrow> nat \<Rightarrow> 'c) \<Rightarrow> 'b list \<Rightarrow> 'c list" where
  "map_idx f xs = map (\<lambda>(idx, x). f x idx) (enumerate 0 xs)"

definition setCurrentConversation ::
    "Conversation option \<Rightarrow> 'a ChatState \<Rightarrow> 'a ChatState" where
  "setCurrentConversation conversation state =
     state\<lparr>currentConversation := conversation, messages := []\<rparr>"

definition setMessages :: "'a Message list \<Rightarrow> 'a ChatState \<Rightarrow> 'a ChatState" where
  "setMessages ms state = state\<lparr>messages := ms\<rparr>"

definition addMessage :: "'a Message \<Rightarrow> 'a ChatState \<Rightarrow> 'a ChatState" where
  "addMessage message state = state\<lparr>messages := messages state @ [message]\<rparr>"

text \<open>
  \<^verbatim>\<open>idx === state.messages.length - 1\<close> compares numbers: on the empty array the right
  side is \<open>-1\<close>, which no index equals, hence the integers.
\<close>

definition updateLastMessage :: "string \<Rightarrow> 'a ChatState \<Rightarrow> 'a ChatState" where
  "updateLastMessage c state =
     state\<lparr>messages :=
       map_idx (\<lambda>msg idx.
           if int idx = int (length (messages state)) - 1 then msg\<lparr>content := c\<rparr> else msg)
         (messages state)\<rparr>"

definition addFunctionCallToLastMessage ::
    "string \<Rightarrow> 'a \<Rightarrow> 'a ChatState \<Rightarrow> 'a ChatState" where
  "addFunctionCallToLastMessage name args state =
     state\<lparr>messages :=
       map_idx (\<lambda>msg idx.
           if int idx = int (length (messages state)) - 1
           then msg\<lparr>function_calls :=
                  Some ((case function_calls msg of None \<Rightarrow> [] | Some fcs \<Rightarrow> fcs)
                        @ [(name, args)])\<rparr>
           else msg)
         (messages state)\<rparr>"

definition setStreaming :: "bool \<Rightarrow> 'a ChatState \<Rightarrow> 'a ChatState" where
  "setStreaming streaming state = state\<lparr>isStreaming := streaming\<rparr>"


section \<open>Strings\<close>

text \<open>
  A string is a list of characters, one per code unit below U+0100. Among these the
  characters that \<^verbatim>\<open>String.prototype.trim\<close> removes (ECMAScript WhiteSpace and
  LineTerminator) are TAB, LF, VT, FF, CR, SPACE and NBSP.
\<close>

definition is_whitespace :: "char \<Rightarrow> bool" where
  "is_whitespace c \<longleftrightarrow>
     c \<in> {CHR 0x09, CHR 0x0A, CHR 0x0B, CHR 0x0C, CHR 0x0D, CHR 0x20, CHR 0xA0}"

definition js_trim :: "string \<Rightarrow> string" where
  "js_trim s = rev (dropWhile is_whitespace (rev (dropWhile is_whitespace s)))"

text \<open>\<^verbatim>\<open>s.startsWith(p)\<close> and \<^verbatim>\<open>s.slice(n)\<close> for \<open>n\<close> not negative.\<close>

definition startsWith :: "string \<Rightarrow> string \<Rightarrow> bool" where
  "startsWith s p \<longleftrightarrow> take (length p) s = p"

definition slice :: "string \<Rightarrow> nat \<Rightarrow> string" where
  "slice s n = drop n s"

text \<open>
  \<^verbatim>\<open>s.split("\n")\<close>: the pieces between line feeds, always at least one piece. The
  empty-list branch of the case is never taken.
\<close>

fun split_newline :: "string \<Rightarrow> string list" where
  "split_newline [] = [[]]"
| "split_newline (c # cs) =
     (if c = CHR 0x0A then [] # split_newline cs
      else (case split_newline cs of
              [] \<Rightarrow> [[c]]
            | l # ls \<Rightarrow> (c # l) # ls))"


section \<open>The API client\<close>

text \<open>
  JSON values, as \<^verbatim>\<open>response.json()\<close> gives them. A number is kept as an integer: the
  client only tests a number for being zero. An object lists its properties, each key
  once.
\<close>

datatype json =
    JNull
  | JBool bool
  | JNum int
  | JStr string
  | JArr "json list"
  | JObj "(string \<times> json) list"

text \<open>Truthiness of a value, as \<^verbatim>\<open>||\<close> tests it.\<close>

fun truthy :: "json \<Rightarrow> bool" where
  "truthy JNull = False"
| "truthy (JBool b) = b"
| "truthy (JNum n) = (n \<noteq> 0)"
| "truthy (JStr s) = (s \<noteq> [])"
| "truthy (JArr xs) = True"
| "truthy (JObj kvs) = True"

text \<open>
  \<^verbatim>\<open>error.detail\<close>: reading a property of \<^verbatim>\<open>null\<close> throws a TypeError (outer \<open>None\<close>);
  on an object it is the property or \<^verbatim>\<open>undefined\<close> (inner \<open>None\<close>); booleans, numbers,
  strings and arrays have no property of that name.
\<close>

fun get_detail :: "json \<Rightarrow> json option option" where
  "get_detail JNull = None"
| "get_detail (JObj kvs) = Some (map_of kvs ''detail'')"
| "get_detail v = Some None"

text \<open>
  What the functions of \<^verbatim>\<open>api.ts\<close> throw: an \<^verbatim>\<open>ApiError\<close> with status and message, a
  plain \<^verbatim>\<open>Error\<close>, the TypeError of reading a property of \<^verbatim>\<open>null\<close>, a rejected
  \<^verbatim>\<open>fetch\<close>, a rejected \<^verbatim>\<open>reader.read()\<close>. The message of an \<^verbatim>\<open>ApiError\<close> is kept as the
  value handed to the constructor (a string is \<open>JStr\<close>), which stores its conversion to
  a string.
\<close>

datatype Thrown =
    ApiError nat json
  | Error string
  | TypeError
  | FetchFailed
  | ReadFailed

text \<open>
  A response of \<^verbatim>\<open>fetch\<close>: its status; its body as a stream, \<open>None\<close> when
  \<^verbatim>\<open>response.body\<close> is null, else the decoded text of the chunks that \<^verbatim>\<open>reader.read()\<close>
  yields and whether the stream then ends (\<open>True\<close>) or a read rejects (\<open>False\<close>); and
  what \<^verbatim>\<open>response.json()\<close> resolves to, \<open>None\<close> when it rejects. \<^verbatim>\<open>response.ok\<close> is by
  the Fetch standard the status being in the range 200 to 299.
\<close>

record Response =
  http_status :: nat
  body :: "(string list \<times> bool) option"
  body_json :: "json option"

definition ok :: "Response \<Rightarrow> bool" where
  "ok response \<longleftrightarrow> 200 \<le> http_status response \<and> http_status response \<le> 299"

datatype FetchResult = Rejected | Resolved Response

text \<open>\<^verbatim>\<open>authStore.ts\<close>, and the browser state that \<^verbatim>\<open>api.request\<close> writes.\<close>

record AuthState =
  token :: "string option"
  isAuthenticated :: bool

definition logout :: "AuthState \<Rightarrow> AuthState" where
  "logout a = a\<lparr>token := None, isAuthenticated := False\<rparr>"

record Browser =
  auth :: AuthState
  location_href :: string

text \<open>
  \<^verbatim>\<open>api.request\<close>, from the result of its \<^verbatim>\<open>fetch\<close> on: the request itself (endpoint,
  headers) has no part in what happens after the response.
\<close>

definition api_request ::
    "FetchResult \<Rightarrow> Browser \<Rightarrow> (Thrown + Response) \<times> Browser" where
  "api_request fetched browser =
     (case fetched of
        Rejected \<Rightarrow> (Inl FetchFailed, browser)
      | Resolved response \<Rightarrow>
          if http_status response = 401 then
            (Inl (ApiError 401 (JStr ''Unauthorized'')),
             browser\<lparr>auth := logout (auth browser), location_href := ''/login''\<rparr>)
          else if \<not> ok response then
            (let error = (case body_json response of
                            None \<Rightarrow> JObj [(''detail'', JStr ''An error occurred'')]
                          | Some j \<Rightarrow> j)
             in case get_detail error of
                  None \<Rightarrow> (Inl TypeError, browser)
                | Some detail \<Rightarrow>
                    (Inl (ApiError (http_status response)
                            (case detail of
                               None \<Rightarrow> JStr ''An error occurred''
                             | Some d \<Rightarrow> if truthy d then d else JStr ''An error occurred'')),
                     browser))
          else (Inr response, browser))"

text \<open>
  The body of the \<^verbatim>\<open>for\<close> loop of \<^verbatim>\<open>api.sendMessage\<close> for one line: the event handed
  to \<^verbatim>\<open>onEvent\<close>, if any. \<open>parse\<close> stands for \<^verbatim>\<open>JSON.parse\<close>, \<open>None\<close> when it throws;
  the \<^verbatim>\<open>catch\<close> then logs and the loop goes on.
\<close>

definition process_line :: "(string \<Rightarrow> 'e option) \<Rightarrow> string \<Rightarrow> 'e option" where
  "process_line parse line =
     (let trimmedLine = js_trim line in
      if startsWith trimmedLine ''data: '' then
        (let data = js_trim (slice trimmedLine 6) in
         if data = ''[DONE]'' then None else parse data)
      else None)"

text \<open>
  The \<^verbatim>\<open>while\<close> loop of \<^verbatim>\<open>api.sendMessage\<close>: each chunk read is appended to the
  buffer, the buffer is split at line feeds, the last piece goes back to the buffer
  (\<^verbatim>\<open>lines.pop() || ""\<close>) and the other pieces are processed in order. The result lists
  the events delivered.
\<close>

fun read_loop :: "(string \<Rightarrow> 'e option) \<Rightarrow> string \<Rightarrow> string list \<Rightarrow> 'e list" where
  "read_loop parse buffer [] = []"
| "read_loop parse buffer (chunk # rest) =
     (let lines = split_newline (buffer @ chunk) in
      List.map_filter (process_line parse) (butlast lines)
      @ read_loop parse (if lines = [] then [] else last lines) rest)"

text \<open>\<^verbatim>\<open>api.sendMessage\<close>, from the result of its \<^verbatim>\<open>fetch\<close> on.\<close>

definition api_sendMessage ::
    "(string \<Rightarrow> 'e option) \<Rightarrow> FetchResult \<Rightarrow> 'e list \<times> Thrown option" where
  "api_sendMessage parse fetched =
     (case fetched of
        Rejected \<Rightarrow> ([], Some FetchFailed)
      | Resolved response \<Rightarrow>
          if \<not> ok response then
            ([], Some (ApiError (http_status response) (JStr ''Failed to send message'')))
          else
            (case body response of
               None \<Rightarrow> ([], Some (Error ''No response body''))
             | Some (chunks, ended) \<Rightarrow>
                 (read_loop parse [] chunks, if ended then None else Some ReadFailed)))"


section \<open>The chat page: handling stream events and sending a message\<close>

text \<open>
  The event record that \<^verbatim>\<open>onEvent\<close> receives (\<^verbatim>\<open>useChat.ts\<close>, \<^verbatim>\<open>api.ts\<close>). The type
  tag is a string: the switch has no default branch, so any other tag falls through.
  An optional property is \<open>None\<close> when absent. \<^verbatim>\<open>args\<close> is the JSON value the event
  carries, whatever it is: the handler tests it for truthiness, as it tests the name,
  and a string is truthy when it is not empty.
\<close>

record Event =
  ev_type :: string
  ev_name :: "string option"
  ev_args :: "json option"
  ev_content :: "string option"
  ev_message_id :: "int option"
  ev_message :: "string option"

definition generic_error :: string where
  "generic_error = ''Sorry, I encountered an error. Please try again.''"

text \<open>
  \<^verbatim>\<open>Chat.sendMessage.onEvent\<close>. The handler works on the store and on the local
  variable \<^verbatim>\<open>fullContent\<close> of the enclosing call, so its state is the pair of both.
\<close>

definition onEvent :: "Event \<Rightarrow> json ChatState \<times> string \<Rightarrow> json ChatState \<times> string" where
  "onEvent event st =
     (case st of (state, fullContent) \<Rightarrow>
        if ev_type event = ''text'' then
          (case ev_content event of
             None \<Rightarrow> (state, fullContent)
           | Some c \<Rightarrow>
               if c = [] then (state, fullContent)
               else (updateLastMessage (fullContent @ c) state, fullContent @ c))
        else if ev_type event = ''function_call'' then
          (case ev_name event of
             None \<Rightarrow> (state, fullContent)
           | Some n \<Rightarrow>
               (case ev_args event of
                  None \<Rightarrow> (state, fullContent)
                | Some a \<Rightarrow>
                    if n = [] \<or> \<not> truthy a then (state, fullContent)
                    else (addFunctionCallToLastMessage n a state, fullContent)))
        else if ev_type event = ''done'' then (setStreaming False state, fullContent)
        else if ev_type event = ''error'' then
          (setStreaming False
             (updateLastMessage
                (case ev_message event of
                   None \<Rightarrow> generic_error
                 | Some m \<Rightarrow> if m = [] then generic_error else m)
                state),
           fullContent)
        else (state, fullContent))"

text \<open>The events of one stream, handled in the order of their delivery.\<close>

definition onEvents ::
    "Event list \<Rightarrow> json ChatState \<times> string \<Rightarrow> json ChatState \<times> string" where
  "onEvents events st = foldl (\<lambda>acc event. onEvent event acc) st events"

text \<open>
  The page: the store and the \<^verbatim>\<open>input\<close> state of the component. The clock holds what
  the two calls of \<^verbatim>\<open>Date.now()\<close> and of \<^verbatim>\<open>new Date().toISOString()\<close> return.
\<close>

record 'a ChatPage =
  store :: "'a ChatState"
  input :: string

record Clock =
  user_now :: int
  user_iso :: string
  assistant_now :: int
  assistant_iso :: string

text \<open>
  \<^verbatim>\<open>Chat.sendMessage\<close>. \<open>mutateAsync conversationId message\<close> stands for the mutation of
  \<^verbatim>\<open>useSendMessage\<close>, which calls \<^verbatim>\<open>api.sendMessage\<close> (\<open>api_sendMessage\<close> above, applied to
  what \<^verbatim>\<open>fetch\<close> gives for this request): it gives the events delivered to \<^verbatim>\<open>onEvent\<close>, in
  order, and what the promise rejects with, if it does. The events are handled as they
  arrive, before the rejection is caught. The second component of the result lists the
  requests issued, as (conversation id, message).
\<close>

definition sendMessage ::
    "Clock \<Rightarrow> (string \<Rightarrow> string \<Rightarrow> Event list \<times> Thrown option) \<Rightarrow> json ChatPage
       \<Rightarrow> json ChatPage \<times> (string \<times> string) list" where
  "sendMessage clock mutateAsync page =
     (case currentConversation (store page) of
        None \<Rightarrow> (page, [])
      | Some conversation \<Rightarrow>
          if js_trim (input page) = [] \<or> isStreaming (store page) then (page, [])
          else
            (let userMessage =
                   \<lparr>msg_id = user_now clock, msg_role = User, content = input page,
                    msg_created_at = user_iso clock, function_calls = None\<rparr>;
                 s1 = addMessage userMessage (store page);
                 messageContent = input page;
                 s2 = setStreaming True s1;
                 assistantMessage =
                   \<lparr>msg_id = assistant_now clock + 1, msg_role = Assistant, content = [],
                    msg_created_at = assistant_iso clock, function_calls = None\<rparr>;
                 s3 = addMessage assistantMessage s2;
                 (events, thrown) = mutateAsync (conv_id conversation) messageContent;
                 (s4, fullContent) = onEvents events (s3, []);
                 s5 = (case thrown of
                         None \<Rightarrow> s4
                       | Some err \<Rightarrow> setStreaming False (updateLastMessage generic_error s4))
             in (\<lparr>store = s5, input = []\<rparr>, [(conv_id conversation, messageContent)])))"


text \<open>
  \<^verbatim>\<open>Chat.sendMessage\<close> is an async function: it runs up to the call of \<^verbatim>\<open>mutateAsync\<close>,
  then \<^verbatim>\<open>onEvent\<close> runs once for each event as \<^verbatim>\<open>api.sendMessage\<close> reads it, and at the
  end the promise resolves, or it rejects and the \<^verbatim>\<open>catch\<close> block runs. Between these
  steps the page handles other input, another call of \<^verbatim>\<open>sendMessage\<close> included. The
  parts, one by one: \<open>sendMessage_start\<close> is the part before the request, \<open>None\<close> when
  the guard returns, else the page as the request leaves it and the request
  (conversation id, message); \<open>sendMessage_catch\<close> is the \<^verbatim>\<open>catch\<close> block.
\<close>

definition sendMessage_start ::
    "Clock \<Rightarrow> json ChatPage \<Rightarrow> (json ChatPage \<times> string \<times> string) option" where
  "sendMessage_start clock page =
     (case currentConversation (store page) of
        None \<Rightarrow> None
      | Some conversation \<Rightarrow>
          if js_trim (input page) = [] \<or> isStreaming (store page) then None
          else
            (let userMessage =
                   \<lparr>msg_id = user_now clock, msg_role = User, content = input page,
                    msg_created_at = user_iso clock, function_calls = None\<rparr>;
                 s1 = addMessage userMessage (store page);
                 messageContent = input page;
                 s2 = setStreaming True s1;
                 assistantMessage =
                   \<lparr>msg_id = assistant_now clock + 1, msg_role = Assistant, content = [],
                    msg_created_at = assistant_iso clock, function_calls = None\<rparr>;
                 s3 = addMessage assistantMessage s2
             in Some (\<lparr>store = s3, input = []\<rparr>, conv_id conversation, messageContent)))"

definition sendMessage_catch :: "json ChatState \<Rightarrow> json ChatState" where
  "sendMessage_catch state = setStreaming False (updateLastMessage generic_error state)"

text \<open>
  The client over time: the page, and the requests in flight, oldest first. A request
  is in flight from the call of \<^verbatim>\<open>mutateAsync\<close> until its promise settles; it carries
  the variable \<^verbatim>\<open>fullContent\<close> of the call of \<^verbatim>\<open>sendMessage\<close> that issued it.
\<close>

record Sent =
  sent_conversation :: string
  sent_message :: string
  sent_fullContent :: string

record Client =
  client_page :: "json ChatPage"
  client_inflight :: "Sent list"

text \<open>
  What can happen next: \<^verbatim>\<open>sendMessage\<close> is called; the user edits the input
  (\<^verbatim>\<open>setInput\<close>); the request at a position in the list delivers an event to its
  \<^verbatim>\<open>onEvent\<close>; the promise of the request at a position settles, resolved (\<open>None\<close>) or
  rejected; the effect of the page stores the messages its query has loaded
  (\<^verbatim>\<open>setMessages\<close>); the sidebar selects a conversation or none
  (\<^verbatim>\<open>setCurrentConversation\<close>). These are all the writers of the chat store and of the
  input. A position beyond the list changes nothing.
\<close>

datatype Step =
    Send Clock
  | SetInput string
  | Deliver nat Event
  | Settle nat "Thrown option"
  | LoadMessages "json Message list"
  | SelectConversation "Conversation option"

fun step :: "Step \<Rightarrow> Client \<Rightarrow> Client" where
  "step (Send clock) c =
     (case sendMessage_start clock (client_page c) of
        None \<Rightarrow> c
      | Some (page', conversationId, messageContent) \<Rightarrow>
          c\<lparr>client_page := page',
            client_inflight := client_inflight c @
              [\<lparr>sent_conversation = conversationId, sent_message = messageContent,
                sent_fullContent = []\<rparr>]\<rparr>)"
| "step (SetInput newInput) c = c\<lparr>client_page := (client_page c)\<lparr>input := newInput\<rparr>\<rparr>"
| "step (Deliver k event) c =
     (if k < length (client_inflight c) then
        (let r = client_inflight c ! k;
             (state', fullContent') = onEvent event (store (client_page c), sent_fullContent r)
         in c\<lparr>client_page := (client_page c)\<lparr>store := state'\<rparr>,
              client_inflight := (client_inflight c)[k := r\<lparr>sent_fullContent := fullContent'\<rparr>]\<rparr>)
      else c)"
| "step (Settle k thrown) c =
     (if k < length (client_inflight c) then
        c\<lparr>client_page :=
            (case thrown of
               None \<Rightarrow> client_page c
             | Some err \<Rightarrow>
                 (client_page c)\<lparr>store := sendMessage_catch (store (client_page c))\<rparr>),
          client_inflight := take k (client_inflight c) @ drop (Suc k) (client_inflight c)\<rparr>
      else c)"
| "step (LoadMessages ms) c =
     c\<lparr>client_page := (client_page c)\<lparr>store := setMessages ms (store (client_page c))\<rparr>\<rparr>"
| "step (SelectConversation conversation) c =
     c\<lparr>client_page :=
         (client_page c)\<lparr>store := setCurrentConversation conversation (store (client_page c))\<rparr>\<rparr>"

definition run :: "Step list \<Rightarrow> Client \<Rightarrow> Client" where
  "run steps c = foldl (\<lambda>acc s. step s acc) c steps"

text \<open>
  The steps that leave \<^verbatim>\<open>isStreaming\<close> as it is when it is true: all but the delivery
  of a done or error event and a rejected promise.
\<close>

fun quiet :: "Step \<Rightarrow> bool" where
  "quiet (Send clock) = True"
| "quiet (SetInput newInput) = True"
| "quiet (Deliver k event) = (ev_type event \<noteq> ''done'' \<and> ev_type event \<noteq> ''error'')"
| "quiet (Settle k thrown) = (thrown = None)"
| "quiet (LoadMessages ms) = True"
| "quiet (SelectConversation conversation) = True"


section \<open>Example data\<close>

text \<open>
  A conversation, a clock, a page ready to send, the store as it is while a reply is
  streaming (the user's message, then the empty assistant message), a client with
  nothing in flight and one with a request in flight, and stream events.
\<close>

definition example_conversation :: Conversation where
  "example_conversation =
     \<lparr>conv_id = ''c1'', title = None, created_at = ''2025-01-01T00:00:00.000Z'',
      updated_at = None\<rparr>"

definition example_clock :: Clock where
  "example_clock =
     \<lparr>user_now = 1000, user_iso = ''2025-01-01T00:00:01.000Z'',
      assistant_now = 1000, assistant_iso = ''2025-01-01T00:00:01.000Z''\<rparr>"

definition example_page :: "json ChatPage" where
  "example_page =
     \<lparr>store = \<lparr>currentConversation = Some example_conversation, messages = [],
               isStreaming = False\<rparr>,
      input = ''find my invoice''\<rparr>"

definition example_user :: "json Message" where
  "example_user =
     \<lparr>msg_id = 1000, msg_role = User, content = ''find my invoice'',
      msg_created_at = ''2025-01-01T00:00:01.000Z'', function_calls = None\<rparr>"

definition example_assistant :: "json Message" where
  "example_assistant =
     \<lparr>msg_id = 1001, msg_role = Assistant, content = [],
      msg_created_at = ''2025-01-01T00:00:01.000Z'', function_calls = None\<rparr>"

definition example_inflight :: "json ChatState" where
  "example_inflight =
     \<lparr>currentConversation = Some example_conversation,
      messages = [example_user, example_assistant], isStreaming = True\<rparr>"

definition example_client :: Client where
  "example_client = \<lparr>client_page = example_page, client_inflight = []\<rparr>"

definition example_streaming :: Client where
  "example_streaming =
     \<lparr>client_page = \<lparr>store = example_inflight, input = ''and my receipts''\<rparr>,
      client_inflight =
        [\<lparr>sent_conversation = ''c1'', sent_message = ''find my invoice'',
          sent_fullContent = []\<rparr>]\<rparr>"

definition text_event :: "string option \<Rightarrow> Event" where
  "text_event c =
     \<lparr>ev_type = ''text'', ev_name = None, ev_args = None, ev_content = c,
      ev_message_id = None, ev_message = None\<rparr>"

definition error_event :: "string option \<Rightarrow> Event" where
  "error_event m =
     \<lparr>ev_type = ''error'', ev_name = None, ev_args = None, ev_content = None,
      ev_message_id = None, ev_message = m\<rparr>"

definition call_event :: "string \<Rightarrow> string \<Rightarrow> json \<Rightarrow> Event" where
  "call_event tag n a =
     \<lparr>ev_type = tag, ev_name = Some n, ev_args = Some a, ev_content = None,
      ev_message_id = None, ev_message = None\<rparr>"

definition done_event :: "Event" where
  "done_event =
     \<lparr>ev_type = ''done'', ev_name = None, ev_args = None, ev_content = None,
      ev_message_id = Some 7, ev_message = None\<rparr>"


section \<open>Properties of the task status functions\<close>

text \<open>
  C1. \<^verbatim>\<open>checkTaskStatus\<close> reports "done" for "completed", "failed" for "failed",
  "pending" for "pending", and "processing" for every other status string.
\<close>

theorem checkTaskStatus_mapping:
  "(status t = ''completed'' \<longrightarrow> checkTaskStatus (Some t) = Some ''done'')
   \<and> (status t = ''failed'' \<longrightarrow> checkTaskStatus (Some t) = Some ''failed'')
   \<and> (status t = ''pending'' \<longrightarrow> checkTaskStatus (Some t) = Some ''pending'')
   \<and> (status t \<notin> {''completed'', ''failed'', ''pending''}
        \<longrightarrow> checkTaskStatus (Some t) = Some ''processing'')"
  by (simp add: checkTaskStatus_def)

theorem checkTaskStatus_mapping_witness:
  "checkTaskStatus (Some \<lparr>task_id = ''t1'', status = ''completed'', result = None\<rparr>) = Some ''done''
   \<and> checkTaskStatus (Some \<lparr>task_id = ''t1'', status = ''failed'', result = None\<rparr>) = Some ''failed''
   \<and> checkTaskStatus (Some \<lparr>task_id = ''t1'', status = ''pending'', result = None\<rparr>) = Some ''pending''
   \<and> checkTaskStatus (Some \<lparr>task_id = ''t1'', status = ''processing'', result = None\<rparr>) = Some ''processing''
   \<and> checkTaskStatus (Some \<lparr>task_id = ''t1'', status = ''c0rrupt'', result = None\<rparr>) = Some ''processing''"
  using checkTaskStatus_mapping [of "\<lparr>task_id = ''t1'', status = ''completed'', result = None\<rparr>"]
    checkTaskStatus_mapping [of "\<lparr>task_id = ''t1'', status = ''failed'', result = None\<rparr>"]
    checkTaskStatus_mapping [of "\<lparr>task_id = ''t1'', status = ''pending'', result = None\<rparr>"]
    checkTaskStatus_mapping [of "\<lparr>task_id = ''t1'', status = ''processing'', result = None\<rparr>"]
    checkTaskStatus_mapping [of "\<lparr>task_id = ''t1'', status = ''c0rrupt'', result = None\<rparr>"]
  by simp

text \<open>Facts about the polling model.\<close>

lemma poll_take: "take (length (poll ds)) ds = poll ds"
  by (induction ds) (simp_all split: refetch.splits)

lemma poll_stops:
  "i < length (poll ds) \<Longrightarrow> refetchInterval (Some (poll ds ! i)) = Stop \<Longrightarrow> length (poll ds) = Suc i"
proof (induction ds arbitrary: i)
  case Nil
  then show ?case by simp
next
  case (Cons d ds)
  show ?case
  proof (cases i)
    case 0
    with Cons.prems show ?thesis by (simp split: refetch.splits)
  next
    case (Suc j)
    with Cons.prems Cons.IH [of j] show ?thesis by (simp split: refetch.splits)
  qed
qed

lemma refetchInterval_Every:
  "refetchInterval (Some d) = Every 2000 \<longleftrightarrow> status d \<in> {''pending'', ''processing''}"
  by (auto simp: refetchInterval_def)

lemma refetchInterval_Stop:
  "refetchInterval (Some d) = Stop \<longleftrightarrow> status d \<notin> {''pending'', ''processing''}"
  by (auto simp: refetchInterval_def)

text \<open>
  C2 (as the code has it). \<^verbatim>\<open>refetchInterval\<close> returns 2000 exactly when the fetched
  status is "pending" or "processing", and \<^verbatim>\<open>false\<close> for every other status: the
  terminal "completed" and "failed", and any unknown status as well; without data it
  returns \<^verbatim>\<open>false\<close>. Polling driven by it fetches a prefix of the backend's answers, and
  a fetched status other than "pending" and "processing" is the last one fetched.
\<close>

theorem refetchInterval_polls_pending_processing:
  "(refetchInterval (Some d) = Every 2000 \<longleftrightarrow> status d \<in> {''pending'', ''processing''})
   \<and> (refetchInterval (Some d) = Stop \<longleftrightarrow> status d \<notin> {''pending'', ''processing''})
   \<and> (status d \<in> {''completed'', ''failed''} \<longrightarrow> refetchInterval (Some d) = Stop)
   \<and> refetchInterval None = Stop
   \<and> take (length (poll ds)) ds = poll ds
   \<and> (\<forall>i. i < length (poll ds) \<and> status (poll ds ! i) \<notin> {''pending'', ''processing''}
          \<longrightarrow> length (poll ds) = Suc i)"
proof -
  have stops: "\<forall>i. i < length (poll ds) \<and> status (poll ds ! i) \<notin> {''pending'', ''processing''}
          \<longrightarrow> length (poll ds) = Suc i"
  proof (intro allI impI)
    fix i
    assume a: "i < length (poll ds) \<and> status (poll ds ! i) \<notin> {''pending'', ''processing''}"
    then have "refetchInterval (Some (poll ds ! i)) = Stop"
      by (simp add: refetchInterval_Stop)
    with a show "length (poll ds) = Suc i"
      by (simp add: poll_stops)
  qed
  have terminal: "status d \<in> {''completed'', ''failed''} \<longrightarrow> refetchInterval (Some d) = Stop"
    by (auto simp: refetchInterval_def)
  have nodata: "refetchInterval None = Stop"
    by (simp add: refetchInterval_def)
  show ?thesis
    by (intro conjI) (rule refetchInterval_Every refetchInterval_Stop terminal nodata poll_take stops)+
qed

theorem refetchInterval_polls_pending_processing_witness:
  "refetchInterval (Some \<lparr>task_id = ''t1'', status = ''pending'', result = None\<rparr>) = Every 2000
   \<and> refetchInterval (Some \<lparr>task_id = ''t1'', status = ''completed'', result = None\<rparr>) = Stop
   \<and> length (poll [\<lparr>task_id = ''t1'', status = ''pending'', result = None\<rparr>,
                   \<lparr>task_id = ''t1'', status = ''completed'', result = None\<rparr>,
                   \<lparr>task_id = ''t1'', status = ''pending'', result = None\<rparr>]) = 2"
proof -
  let ?p = "\<lparr>task_id = ''t1'', status = ''pending'', result = None\<rparr>"
  let ?c = "\<lparr>task_id = ''t1'', status = ''completed'', result = None\<rparr>"
  have a: "refetchInterval (Some ?p) = Every 2000"
    using refetchInterval_polls_pending_processing [of ?p "[]"] by simp
  have b: "refetchInterval (Some ?c) = Stop"
    using refetchInterval_polls_pending_processing [of ?c "[]"] by simp
  have len: "1 < length (poll [?p, ?c, ?p])"
    by (simp add: a)
  have "poll [?p, ?c, ?p] ! 1 = ?c"
    by (simp add: a)
  then have "1 < length (poll [?p, ?c, ?p])
      \<and> status (poll [?p, ?c, ?p] ! 1) \<notin> {''pending'', ''processing''}"
    using len by simp
  then have "length (poll [?p, ?c, ?p]) = Suc 1"
    by (rule refetchInterval_polls_pending_processing [of ?p "[?p, ?c, ?p]",
          THEN conjunct2, THEN conjunct2, THEN conjunct2, THEN conjunct2, THEN conjunct2,
          rule_format])
  with a b show ?thesis by simp
qed

text \<open>
  C2 as stated fails: the status "queued" is neither "completed" nor "failed", and the
  callback does not return 2000 for it.
\<close>

theorem refetchInterval_unknown_status_counterexample:
  "status \<lparr>task_id = ''t1'', status = ''queued'', result = None\<rparr> \<noteq> ''completed''
   \<and> status \<lparr>task_id = ''t1'', status = ''queued'', result = None\<rparr> \<noteq> ''failed''
   \<and> refetchInterval (Some \<lparr>task_id = ''t1'', status = ''queued'', result = None\<rparr>) \<noteq> Every 2000"
  by (simp add: refetchInterval_def)


section \<open>Properties of the chat store\<close>

lemma map_idx_length: "length (map_idx f xs) = length xs"
  by (simp add: map_idx_def)

lemma map_idx_nth: "i < length xs \<Longrightarrow> map_idx f xs ! i = f (xs ! i) i"
  by (simp add: map_idx_def nth_enumerate_eq)

lemma map_idx_last_only:
  "map_idx (\<lambda>x idx. if int idx = int (length (ms @ [m])) - 1 then g x else x) (ms @ [m])
     = ms @ [g m]"
  by (rule nth_equalityI) (auto simp: map_idx_length map_idx_nth nth_append)

lemma map_idx_Nil: "map_idx f [] = []"
  by (simp add: map_idx_def)

lemma updateLastMessage_snoc:
  "messages state = ms @ [m] \<Longrightarrow>
     updateLastMessage c state = state\<lparr>messages := ms @ [m\<lparr>content := c\<rparr>]\<rparr>"
  unfolding updateLastMessage_def using map_idx_last_only [of ms m "\<lambda>x. x\<lparr>content := c\<rparr>"]
  by simp

lemma updateLastMessage_Nil:
  "messages state = [] \<Longrightarrow> updateLastMessage c state = state"
  by (simp add: updateLastMessage_def map_idx_Nil)

lemma addFunctionCall_snoc:
  "messages state = ms @ [m] \<Longrightarrow>
     addFunctionCallToLastMessage n a state =
       state\<lparr>messages := ms @ [m\<lparr>function_calls :=
          Some ((case function_calls m of None \<Rightarrow> [] | Some fcs \<Rightarrow> fcs) @ [(n, a)])\<rparr>]\<rparr>"
  unfolding addFunctionCallToLastMessage_def
  using map_idx_last_only [of ms m "\<lambda>x. x\<lparr>function_calls :=
          Some ((case function_calls x of None \<Rightarrow> [] | Some fcs \<Rightarrow> fcs) @ [(n, a)])\<rparr>"]
  by simp

lemma addFunctionCall_Nil:
  "messages state = [] \<Longrightarrow> addFunctionCallToLastMessage n a state = state"
  by (simp add: addFunctionCallToLastMessage_def map_idx_Nil)

text \<open>
  C7. \<^verbatim>\<open>addMessage\<close> appends the message and keeps every earlier one; \<^verbatim>\<open>updateLastMessage\<close>
  and \<^verbatim>\<open>addFunctionCallToLastMessage\<close> keep the length and every message but the last,
  whose content is replaced, or whose function calls get one more entry.
\<close>

theorem chat_store_append_only:
  "messages (addMessage message state) = messages state @ [message]
   \<and> length (messages (addMessage message state)) = length (messages state) + 1
   \<and> (\<forall>i < length (messages state).
         messages (addMessage message state) ! i = messages state ! i)
   \<and> length (messages (updateLastMessage c state)) = length (messages state)
   \<and> (\<forall>i < length (messages state).
         messages (updateLastMessage c state) ! i =
           (if Suc i = length (messages state) then (messages state ! i)\<lparr>content := c\<rparr>
            else messages state ! i))
   \<and> length (messages (addFunctionCallToLastMessage name args state)) = length (messages state)
   \<and> (\<forall>i < length (messages state).
         messages (addFunctionCallToLastMessage name args state) ! i =
           (if Suc i = length (messages state)
            then (messages state ! i)\<lparr>function_calls :=
                   Some ((case function_calls (messages state ! i) of None \<Rightarrow> [] | Some fcs \<Rightarrow> fcs)
                         @ [(name, args)])\<rparr>
            else messages state ! i))"
proof -
  have 1: "messages (addMessage message state) = messages state @ [message]"
    by (simp add: addMessage_def)
  have 2: "\<forall>i < length (messages state).
         messages (addMessage message state) ! i = messages state ! i"
    by (simp add: addMessage_def nth_append)
  have 3: "length (messages (updateLastMessage c state)) = length (messages state)"
    by (simp add: updateLastMessage_def map_idx_length)
  have 4: "\<forall>i < length (messages state).
         messages (updateLastMessage c state) ! i =
           (if Suc i = length (messages state) then (messages state ! i)\<lparr>content := c\<rparr>
            else messages state ! i)"
    by (auto simp: updateLastMessage_def map_idx_nth)
  have 5: "length (messages (addFunctionCallToLastMessage name args state)) = length (messages state)"
    by (simp add: addFunctionCallToLastMessage_def map_idx_length)
  have 6: "\<forall>i < length (messages state).
         messages (addFunctionCallToLastMessage name args state) ! i =
           (if Suc i = length (messages state)
            then (messages state ! i)\<lparr>function_calls :=
                   Some ((case function_calls (messages state ! i) of None \<Rightarrow> [] | Some fcs \<Rightarrow> fcs)
                         @ [(name, args)])\<rparr>
            else messages state ! i)"
    by (auto simp: addFunctionCallToLastMessage_def map_idx_nth)
  have 7: "length (messages (addMessage message state)) = length (messages state) + 1"
    by (simp add: addMessage_def)
  show ?thesis
    by (intro conjI) (rule 1 7 2 3 4 5 6)+
qed

theorem chat_store_append_only_witness:
  "messages (addMessage example_user example_inflight)
     = [example_user, example_assistant, example_user]
   \<and> length (messages (updateLastMessage ''Hello'' example_inflight)) = 2
   \<and> messages (updateLastMessage ''Hello'' example_inflight) ! 0 = example_user
   \<and> messages (updateLastMessage ''Hello'' example_inflight) ! 1
        = example_assistant\<lparr>content := ''Hello''\<rparr>
   \<and> length (messages (addFunctionCallToLastMessage ''count_media'' (JObj []) example_inflight)) = 2
   \<and> messages (addFunctionCallToLastMessage ''count_media'' (JObj []) example_inflight) ! 0
        = example_user
   \<and> messages (addFunctionCallToLastMessage ''count_media'' (JObj []) example_inflight) ! 1
        = example_assistant\<lparr>function_calls := Some [(''count_media'', JObj [])]\<rparr>"
proof -
  note t = chat_store_append_only [of example_user example_inflight "''Hello''"
      "''count_media''" "JObj []"]
  have len: "length (messages example_inflight) = 2"
    and m0: "messages example_inflight ! 0 = example_user"
    and m1: "messages example_inflight ! 1 = example_assistant"
    by (simp_all add: example_inflight_def)
  have none: "function_calls example_assistant = None"
    by (simp add: example_assistant_def)
  have a: "messages (addMessage example_user example_inflight)
     = [example_user, example_assistant, example_user]"
    using t [THEN conjunct1] by (simp add: example_inflight_def)
  have u: "\<forall>i < length (messages example_inflight).
         messages (updateLastMessage ''Hello'' example_inflight) ! i =
           (if Suc i = length (messages example_inflight)
            then (messages example_inflight ! i)\<lparr>content := ''Hello''\<rparr>
            else messages example_inflight ! i)"
    by (rule t [THEN conjunct2, THEN conjunct2, THEN conjunct2, THEN conjunct2, THEN conjunct1])
  have f: "\<forall>i < length (messages example_inflight).
         messages (addFunctionCallToLastMessage ''count_media'' (JObj []) example_inflight) ! i =
           (if Suc i = length (messages example_inflight)
            then (messages example_inflight ! i)\<lparr>function_calls :=
                   Some ((case function_calls (messages example_inflight ! i) of
                            None \<Rightarrow> [] | Some fcs \<Rightarrow> fcs)
                         @ [(''count_media'', JObj [])])\<rparr>
            else messages example_inflight ! i)"
    by (rule t [THEN conjunct2, THEN conjunct2, THEN conjunct2, THEN conjunct2, THEN conjunct2,
          THEN conjunct2])
  have ul: "length (messages (updateLastMessage ''Hello'' example_inflight)) = 2"
    using t [THEN conjunct2, THEN conjunct2, THEN conjunct2, THEN conjunct1] len by simp
  have fl: "length (messages (addFunctionCallToLastMessage ''count_media'' (JObj [])
      example_inflight)) = 2"
    using t [THEN conjunct2, THEN conjunct2, THEN conjunct2, THEN conjunct2, THEN conjunct2,
        THEN conjunct1] len by simp
  have u0: "messages (updateLastMessage ''Hello'' example_inflight) ! 0 = example_user"
    using u [rule_format, of 0] len m0 by simp
  have u1: "messages (updateLastMessage ''Hello'' example_inflight) ! 1
        = example_assistant\<lparr>content := ''Hello''\<rparr>"
    using u [rule_format, of 1] len m1 by simp
  have f0: "messages (addFunctionCallToLastMessage ''count_media'' (JObj []) example_inflight) ! 0
        = example_user"
    using f [rule_format, of 0] len m0 by simp
  have f1: "messages (addFunctionCallToLastMessage ''count_media'' (JObj []) example_inflight) ! 1
        = example_assistant\<lparr>function_calls := Some [(''count_media'', JObj [])]\<rparr>"
    using f [rule_format, of 1] len m1 none by simp
  show ?thesis
    by (intro conjI) (rule a ul u0 u1 fl f0 f1)+
qed

text \<open>
  C10. \<^verbatim>\<open>setCurrentConversation\<close> empties the message list, whatever the state and the
  argument.
\<close>

theorem setCurrentConversation_resets_messages:
  "messages (setCurrentConversation conversation state) = []
   \<and> currentConversation (setCurrentConversation conversation state) = conversation
   \<and> isStreaming (setCurrentConversation conversation state) = isStreaming state"
  by (simp add: setCurrentConversation_def)


section \<open>Properties of the chat page\<close>

lemma js_trim_empty_iff: "js_trim s = [] \<longleftrightarrow> (\<forall>c \<in> set s. is_whitespace c)"
proof
  assume "js_trim s = []"
  then have all: "\<forall>c \<in> set (dropWhile is_whitespace s). is_whitespace c"
    by (simp add: js_trim_def dropWhile_eq_Nil_conv)
  have "dropWhile is_whitespace s = []"
  proof (rule ccontr)
    assume ne: "dropWhile is_whitespace s \<noteq> []"
    then have "\<not> is_whitespace (hd (dropWhile is_whitespace s))"
      by (rule hd_dropWhile)
    moreover have "hd (dropWhile is_whitespace s) \<in> set (dropWhile is_whitespace s)"
      using ne by simp
    ultimately show False using all by blast
  qed
  then show "\<forall>c \<in> set s. is_whitespace c"
    by (simp add: dropWhile_eq_Nil_conv)
next
  assume "\<forall>c \<in> set s. is_whitespace c"
  then have "dropWhile is_whitespace s = []"
    by (simp add: dropWhile_eq_Nil_conv)
  then show "js_trim s = []"
    by (simp only: js_trim_def rev.simps dropWhile.simps)
qed

lemma onEvent_not_error:
  assumes "ev_type e \<noteq> ''error''" and "messages s = ms @ [m]" and "content m = f"
  shows "\<exists>m'. messages (fst (onEvent e (s, f))) = ms @ [m']
           \<and> content m' = f @ (if ev_type e = ''text'' then (case ev_content e of None \<Rightarrow> [] | Some c \<Rightarrow> c) else [])
           \<and> snd (onEvent e (s, f)) = content m'"
  using assms
  by (auto simp: onEvent_def updateLastMessage_snoc addFunctionCall_snoc setStreaming_def
      split: option.splits)

lemma onEvents_Nil: "onEvents [] st = st"
  by (simp add: onEvents_def)

lemma onEvents_Cons: "onEvents (e # es) st = onEvents es (onEvent e st)"
  by (simp add: onEvents_def)

lemma onEvents_append: "onEvents (es @ es') st = onEvents es' (onEvents es st)"
  by (simp add: onEvents_def)

lemma onEvents_not_error:
  assumes "\<forall>e \<in> set es. ev_type e \<noteq> ''error''" and "messages s = ms @ [m]" and "content m = f"
  shows "\<exists>m'. messages (fst (onEvents es (s, f))) = ms @ [m']
           \<and> content m' = f @ concat (map (\<lambda>e. case ev_content e of None \<Rightarrow> [] | Some c \<Rightarrow> c)
                                  (filter (\<lambda>e. ev_type e = ''text'') es))
           \<and> snd (onEvents es (s, f)) = content m'"
  using assms
proof (induction es arbitrary: s f m)
  case Nil
  then show ?case by (simp add: onEvents_Nil)
next
  case (Cons e es)
  from Cons.prems have ne: "ev_type e \<noteq> ''error''" by simp
  from onEvent_not_error [OF ne Cons.prems(2) Cons.prems(3)]
  obtain m1 where m1: "messages (fst (onEvent e (s, f))) = ms @ [m1]"
    and c1: "content m1 = f @ (if ev_type e = ''text'' then (case ev_content e of None \<Rightarrow> [] | Some c \<Rightarrow> c) else [])"
    and f1: "snd (onEvent e (s, f)) = content m1"
    by blast
  obtain s1 where s1: "onEvent e (s, f) = (s1, content m1)"
    using f1 by (cases "onEvent e (s, f)") simp
  with m1 have ms1: "messages s1 = ms @ [m1]" by simp
  from Cons.prems have rest: "\<forall>e \<in> set es. ev_type e \<noteq> ''error''" by simp
  from Cons.IH [OF rest ms1 refl]
  obtain m' where "messages (fst (onEvents es (s1, content m1))) = ms @ [m']"
    and "content m' = content m1 @ concat (map (\<lambda>e. case ev_content e of None \<Rightarrow> [] | Some c \<Rightarrow> c)
                                  (filter (\<lambda>e. ev_type e = ''text'') es))"
    and "snd (onEvents es (s1, content m1)) = content m'"
    by blast
  then show ?case
    using s1 c1 by (auto simp: onEvents_Cons)
qed

lemma sendMessage_sends:
  assumes "currentConversation (store page) = Some conversation"
    and "js_trim (input page) \<noteq> []" and "\<not> isStreaming (store page)"
    and "mutateAsync (conv_id conversation) (input page) = (events, thrown)"
  shows "sendMessage clock mutateAsync page =
     (\<lparr>store =
         (let inflight =
            addMessage
              \<lparr>msg_id = assistant_now clock + 1, msg_role = Assistant, content = [],
               msg_created_at = assistant_iso clock, function_calls = None\<rparr>
              (setStreaming True
                (addMessage
                  \<lparr>msg_id = user_now clock, msg_role = User, content = input page,
                   msg_created_at = user_iso clock, function_calls = None\<rparr>
                  (store page)));
              s4 = fst (onEvents events (inflight, []))
          in case thrown of
               None \<Rightarrow> s4
             | Some err \<Rightarrow> setStreaming False (updateLastMessage generic_error s4)),
       input = []\<rparr>,
      [(conv_id conversation, input page)])"
  using assms by (cases thrown) (simp_all add: sendMessage_def Let_def case_prod_beta)

lemma onEvent_shape:
  assumes "messages s = ms @ [m]"
  shows "\<exists>m'. messages (fst (onEvent e (s, f))) = ms @ [m']"
  using assms
  by (auto simp: onEvent_def updateLastMessage_snoc addFunctionCall_snoc setStreaming_def
      split: option.splits)

lemma onEvents_shape:
  assumes "messages s = ms @ [m]"
  shows "\<exists>m'. messages (fst (onEvents es (s, f))) = ms @ [m']"
  using assms
proof (induction es arbitrary: s f m)
  case Nil
  then show ?case by (simp add: onEvents_Nil)
next
  case (Cons e es)
  obtain s1 f1 where s1: "onEvent e (s, f) = (s1, f1)"
    by (cases "onEvent e (s, f)")
  from onEvent_shape [OF Cons.prems, of e f] s1 obtain m1 where "messages s1 = ms @ [m1]"
    by auto
  from Cons.IH [OF this, of f1] show ?case
    by (simp add: onEvents_Cons s1)
qed

lemma onEvent_error:
  assumes "ev_type e = ''error''" and "messages s = ms @ [m]"
  shows "onEvent e (s, f) =
     (s\<lparr>messages := ms @ [m\<lparr>content :=
           (case ev_message e of None \<Rightarrow> generic_error
            | Some t \<Rightarrow> if t = [] then generic_error else t)\<rparr>],
        isStreaming := False\<rparr>, f)"
  using assms by (simp add: onEvent_def updateLastMessage_snoc setStreaming_def)

lemma onEvent_keeps:
  assumes "ev_type e \<noteq> ''text''" and "ev_type e \<noteq> ''error''"
    and "messages s = ms @ [m]" and "\<not> isStreaming s"
  shows "\<exists>m'. messages (fst (onEvent e (s, f))) = ms @ [m'] \<and> content m' = content m
           \<and> \<not> isStreaming (fst (onEvent e (s, f)))"
  using assms
  by (auto simp: onEvent_def addFunctionCall_snoc setStreaming_def split: option.splits)

lemma onEvents_keeps:
  assumes "\<forall>e \<in> set es. ev_type e \<noteq> ''text'' \<and> ev_type e \<noteq> ''error''"
    and "messages s = ms @ [m]" and "\<not> isStreaming s"
  shows "\<exists>m'. messages (fst (onEvents es (s, f))) = ms @ [m'] \<and> content m' = content m
           \<and> \<not> isStreaming (fst (onEvents es (s, f)))"
  using assms
proof (induction es arbitrary: s f m)
  case Nil
  then show ?case by (simp add: onEvents_Nil)
next
  case (Cons e es)
  obtain s1 f1 where s1: "onEvent e (s, f) = (s1, f1)"
    by (cases "onEvent e (s, f)")
  from Cons.prems have e: "ev_type e \<noteq> ''text''" "ev_type e \<noteq> ''error''" by simp_all
  from onEvent_keeps [OF e Cons.prems(2) Cons.prems(3), of f] s1
  obtain m1 where m1: "messages s1 = ms @ [m1]" and c1: "content m1 = content m"
    and i1: "\<not> isStreaming s1"
    by auto
  from Cons.prems have rest: "\<forall>e \<in> set es. ev_type e \<noteq> ''text'' \<and> ev_type e \<noteq> ''error''"
    by simp
  from Cons.IH [OF rest m1 i1, of f1] c1 show ?case
    by (simp add: onEvents_Cons s1)
qed

lemma onEvent_text_noop:
  "ev_type e = ''text'' \<Longrightarrow> ev_content e = None \<or> ev_content e = Some [] \<Longrightarrow> onEvent e st = st"
  by (cases st) (auto simp: onEvent_def)

lemma inflight_shape:
  "messages (addMessage a (setStreaming b (addMessage u s))) = (messages s @ [u]) @ [a]"
  by (simp add: addMessage_def setStreaming_def)

lemma sendMessage_rejected:
  assumes "currentConversation (store page) = Some conversation"
    and "js_trim (input page) \<noteq> []" and "\<not> isStreaming (store page)"
    and "mutateAsync (conv_id conversation) (input page) = (events, Some err)"
  shows "\<not> isStreaming (store (fst (sendMessage clock mutateAsync page)))
       \<and> content (last (messages (store (fst (sendMessage clock mutateAsync page)))))
           = generic_error"
proof -
  let ?inflight = "addMessage
              \<lparr>msg_id = assistant_now clock + 1, msg_role = Assistant, content = [],
               msg_created_at = assistant_iso clock, function_calls = None\<rparr>
              (setStreaming True
                (addMessage
                  \<lparr>msg_id = user_now clock, msg_role = User, content = input page,
                   msg_created_at = user_iso clock, function_calls = None\<rparr>
                  (store page)))"
  have "\<exists>m'. messages (fst (onEvents events (?inflight, []))) =
      (messages (store page) @ [\<lparr>msg_id = user_now clock, msg_role = User, content = input page,
                   msg_created_at = user_iso clock, function_calls = None\<rparr>]) @ [m']"
    by (rule onEvents_shape) (rule inflight_shape)
  then obtain m' where m': "messages (fst (onEvents events (?inflight, []))) =
      (messages (store page) @ [\<lparr>msg_id = user_now clock, msg_role = User, content = input page,
                   msg_created_at = user_iso clock, function_calls = None\<rparr>]) @ [m']"
    by blast
  have "store (fst (sendMessage clock mutateAsync page)) =
      setStreaming False (updateLastMessage generic_error (fst (onEvents events (?inflight, []))))"
    using sendMessage_sends [of page conversation mutateAsync events "Some err" clock] assms
    by (simp add: Let_def)
  then have "store (fst (sendMessage clock mutateAsync page)) =
      setStreaming False ((fst (onEvents events (?inflight, [])))
        \<lparr>messages := (messages (store page) @ [\<lparr>msg_id = user_now clock, msg_role = User,
             content = input page, msg_created_at = user_iso clock, function_calls = None\<rparr>])
            @ [m'\<lparr>content := generic_error\<rparr>]\<rparr>)"
    by (simp only: updateLastMessage_snoc [OF m'])
  then show ?thesis
    by (simp add: setStreaming_def)
qed

lemma sendMessage_error_last:
  assumes "currentConversation (store page) = Some conversation"
    and "js_trim (input page) \<noteq> []" and "\<not> isStreaming (store page)"
    and "mutateAsync (conv_id conversation) (input page) = (before @ [e] @ after, None)"
    and "ev_type e = ''error''"
    and "\<forall>e' \<in> set after. ev_type e' \<noteq> ''text'' \<and> ev_type e' \<noteq> ''error''"
  shows "\<not> isStreaming (store (fst (sendMessage clock mutateAsync page)))
       \<and> content (last (messages (store (fst (sendMessage clock mutateAsync page)))))
           = (case ev_message e of None \<Rightarrow> generic_error
              | Some t \<Rightarrow> if t = [] then generic_error else t)"
proof -
  let ?u = "\<lparr>msg_id = user_now clock, msg_role = User, content = input page,
                   msg_created_at = user_iso clock, function_calls = (None :: (string \<times> json) list option)\<rparr>"
  let ?inflight = "addMessage
              \<lparr>msg_id = assistant_now clock + 1, msg_role = Assistant, content = [],
               msg_created_at = assistant_iso clock, function_calls = None\<rparr>
              (setStreaming True (addMessage ?u (store page)))"
  let ?txt = "case ev_message e of None \<Rightarrow> generic_error
              | Some t \<Rightarrow> if t = [] then generic_error else t"
  obtain s1 f1 where s1: "onEvents before (?inflight, []) = (s1, f1)"
    by (cases "onEvents before (?inflight, [])")
  have "\<exists>m'. messages (fst (onEvents before (?inflight, []))) =
      (messages (store page) @ [?u]) @ [m']"
    by (rule onEvents_shape) (rule inflight_shape)
  with s1 obtain m1 where m1: "messages s1 = (messages (store page) @ [?u]) @ [m1]"
    by auto
  let ?s2 = "s1\<lparr>messages := (messages (store page) @ [?u]) @ [m1\<lparr>content := ?txt\<rparr>],
                isStreaming := False\<rparr>"
  have s2: "onEvent e (s1, f1) = (?s2, f1)"
    by (rule onEvent_error [OF assms(5) m1])
  have "messages ?s2 = (messages (store page) @ [?u]) @ [m1\<lparr>content := ?txt\<rparr>]"
    and "\<not> isStreaming ?s2"
    by simp_all
  from onEvents_keeps [OF assms(6) this, of f1]
  obtain m' where m': "messages (fst (onEvents after (?s2, f1))) = (messages (store page) @ [?u]) @ [m']"
    and c': "content m' = ?txt" and i': "\<not> isStreaming (fst (onEvents after (?s2, f1)))"
    by auto
  have "onEvents (before @ [e] @ after) (?inflight, []) = onEvents after (?s2, f1)"
    by (simp add: onEvents_append onEvents_Cons onEvents_Nil s1 s2)
  then have "store (fst (sendMessage clock mutateAsync page)) = fst (onEvents after (?s2, f1))"
    using sendMessage_sends [of page conversation mutateAsync "before @ [e] @ after" None clock]
      assms(1-4)
    by (simp add: Let_def)
  with m' c' i' show ?thesis
    by simp
qed

lemma sendMessage_streams_text:
  assumes "currentConversation (store page) = Some conversation"
    and "js_trim (input page) \<noteq> []" and "\<not> isStreaming (store page)"
    and "mutateAsync (conv_id conversation) (input page) = (events, None)"
    and "\<forall>e \<in> set events. ev_type e \<noteq> ''error''"
  shows "content (last (messages (store (fst (sendMessage clock mutateAsync page)))))
           = concat (map (\<lambda>e. case ev_content e of None \<Rightarrow> [] | Some c \<Rightarrow> c)
                       (filter (\<lambda>e. ev_type e = ''text'') events))"
proof -
  let ?u = "\<lparr>msg_id = user_now clock, msg_role = User, content = input page,
      msg_created_at = user_iso clock, function_calls = (None :: (string \<times> json) list option)\<rparr>"
  let ?a = "\<lparr>msg_id = assistant_now clock + 1, msg_role = Assistant, content = [],
      msg_created_at = assistant_iso clock, function_calls = (None :: (string \<times> json) list option)\<rparr>"
  let ?inflight = "addMessage ?a (setStreaming True (addMessage ?u (store page)))"
  have "\<exists>m'. messages (fst (onEvents events (?inflight, []))) =
      (messages (store page) @ [?u]) @ [m']
    \<and> content m' = [] @ concat (map (\<lambda>e. case ev_content e of None \<Rightarrow> [] | Some c \<Rightarrow> c)
                       (filter (\<lambda>e. ev_type e = ''text'') events))
    \<and> snd (onEvents events (?inflight, [])) = content m'"
    by (rule onEvents_not_error [OF assms(5)]) (rule inflight_shape, simp)
  then obtain m' where "messages (fst (onEvents events (?inflight, []))) =
      (messages (store page) @ [?u]) @ [m']"
    and "content m' = concat (map (\<lambda>e. case ev_content e of None \<Rightarrow> [] | Some c \<Rightarrow> c)
                       (filter (\<lambda>e. ev_type e = ''text'') events))"
    by auto
  moreover have "store (fst (sendMessage clock mutateAsync page)) = fst (onEvents events (?inflight, []))"
    using sendMessage_sends [of page conversation mutateAsync events None clock] assms(1-4)
    by (simp add: Let_def)
  ultimately show ?thesis by simp
qed

lemma example_guard:
  "currentConversation (store example_page) = Some example_conversation
   \<and> js_trim (input example_page) \<noteq> [] \<and> \<not> isStreaming (store example_page)"
  by (simp add: example_page_def js_trim_def is_whitespace_def)

text \<open>
  C3. From the state in which the empty assistant message has just been added, handling
  events none of which is an error event leaves the earlier messages as they are, and
  the content of the last message is the concatenation, in order, of the contents of
  the text events. A text event without content, or with empty content, changes nothing.
\<close>

theorem text_deltas_accumulate:
  assumes "\<forall>e \<in> set events. ev_type e \<noteq> ''error''" and "content assistantMessage = []"
  shows "butlast (messages (fst (onEvents events (addMessage assistantMessage state, []))))
           = messages state
       \<and> messages (fst (onEvents events (addMessage assistantMessage state, []))) \<noteq> []
       \<and> content (last (messages (fst (onEvents events (addMessage assistantMessage state, [])))))
           = concat (map (\<lambda>e. case ev_content e of None \<Rightarrow> [] | Some c \<Rightarrow> c)
                       (filter (\<lambda>e. ev_type e = ''text'') events))
       \<and> (\<forall>e st. ev_type e = ''text'' \<and> (ev_content e = None \<or> ev_content e = Some [])
              \<longrightarrow> onEvent e st = st)"
proof -
  have "messages (addMessage assistantMessage state) = messages state @ [assistantMessage]"
    by (simp add: addMessage_def)
  from onEvents_not_error [OF assms(1) this assms(2)]
  obtain m' where "messages (fst (onEvents events (addMessage assistantMessage state, [])))
        = messages state @ [m']"
    and "content m' = concat (map (\<lambda>e. case ev_content e of None \<Rightarrow> [] | Some c \<Rightarrow> c)
                       (filter (\<lambda>e. ev_type e = ''text'') events))"
    by auto
  then show ?thesis
    by (simp add: onEvent_text_noop)
qed

theorem text_deltas_accumulate_witness:
  "content (last (messages (fst (onEvents
       [text_event (Some ''Hel''), text_event None, text_event (Some []),
        call_event ''function_call'' ''semantic_search'' (JObj [(''query'', JStr ''invoice'')]),
        text_event (Some ''lo''), done_event]
       (addMessage example_assistant example_inflight, []))))) = ''Hello''
   \<and> onEvent (text_event None) (example_inflight, ''Hel'') = (example_inflight, ''Hel'')"
proof -
  let ?es = "[text_event (Some ''Hel''), text_event None, text_event (Some []),
        call_event ''function_call'' ''semantic_search'' (JObj [(''query'', JStr ''invoice'')]),
        text_event (Some ''lo''), done_event]"
  have h1: "\<forall>e \<in> set ?es. ev_type e \<noteq> ''error''"
    by (simp add: text_event_def call_event_def done_event_def)
  have h2: "content example_assistant = []"
    by (simp add: example_assistant_def)
  note t = text_deltas_accumulate [OF h1 h2, of example_inflight]
  have a: "content (last (messages (fst (onEvents ?es
             (addMessage example_assistant example_inflight, []))))) = ''Hello''"
    using t [THEN conjunct2, THEN conjunct2, THEN conjunct1]
    by (simp add: text_event_def call_event_def done_event_def)
  have b: "onEvent (text_event None) (example_inflight, ''Hel'') = (example_inflight, ''Hel'')"
    using t [THEN conjunct2, THEN conjunct2, THEN conjunct2, rule_format,
        of "text_event None" "(example_inflight, ''Hel'')"]
    by (simp add: text_event_def)
  from a b show ?thesis by simp
qed

text \<open>
  C4 (as the code has it). An event of type "function_call" with a name that is not
  empty and with truthy arguments is recorded at the end of the function calls of the
  last message. An event of that type whose name is absent or empty, or whose arguments
  are absent or falsy, records nothing.
\<close>

theorem function_call_recorded:
  "(ev_type event = ''function_call'' \<and> ev_name event = Some name \<and> name \<noteq> []
      \<and> ev_args event = Some args \<and> truthy args \<and> messages state = ms @ [m]
    \<longrightarrow> onEvent event (state, fullContent) =
         (state\<lparr>messages :=
             ms @ [m\<lparr>function_calls :=
                       Some ((case function_calls m of None \<Rightarrow> [] | Some fcs \<Rightarrow> fcs)
                             @ [(name, args)])\<rparr>]\<rparr>,
          fullContent))
   \<and> (ev_type event = ''function_call''
      \<and> (ev_name event = None \<or> ev_name event = Some [] \<or> ev_args event = None
          \<or> (\<exists>a. ev_args event = Some a \<and> \<not> truthy a))
    \<longrightarrow> onEvent event (state, fullContent) = (state, fullContent))"
proof (intro conjI impI)
  assume "ev_type event = ''function_call'' \<and> ev_name event = Some name \<and> name \<noteq> []
      \<and> ev_args event = Some args \<and> truthy args \<and> messages state = ms @ [m]"
  then show "onEvent event (state, fullContent) =
         (state\<lparr>messages :=
             ms @ [m\<lparr>function_calls :=
                       Some ((case function_calls m of None \<Rightarrow> [] | Some fcs \<Rightarrow> fcs)
                             @ [(name, args)])\<rparr>]\<rparr>,
          fullContent)"
    by (simp add: onEvent_def addFunctionCall_snoc)
next
  assume "ev_type event = ''function_call''
      \<and> (ev_name event = None \<or> ev_name event = Some [] \<or> ev_args event = None
          \<or> (\<exists>a. ev_args event = Some a \<and> \<not> truthy a))"
  then show "onEvent event (state, fullContent) = (state, fullContent)"
    by (auto simp: onEvent_def split: option.splits)
qed

theorem function_call_recorded_witness:
  "function_calls (last (messages (fst (onEvent
      (call_event ''function_call'' ''semantic_search'' (JObj [(''query'', JStr ''invoice'')]))
      (example_inflight, [])))))
    = Some [(''semantic_search'', JObj [(''query'', JStr ''invoice'')])]
   \<and> onEvent (call_event ''function_call'' ''count_media'' (JNum 0)) (example_inflight, [])
       = (example_inflight, [])
   \<and> onEvent (call_event ''function_call'' ''count_media'' JNull) (example_inflight, [])
       = (example_inflight, [])"
proof -
  let ?e = "call_event ''function_call'' ''semantic_search'' (JObj [(''query'', JStr ''invoice'')])"
  have "onEvent ?e (example_inflight, []) =
     (example_inflight\<lparr>messages :=
         [example_user] @ [example_assistant\<lparr>function_calls :=
                   Some ((case function_calls example_assistant of None \<Rightarrow> [] | Some fcs \<Rightarrow> fcs)
                         @ [(''semantic_search'', JObj [(''query'', JStr ''invoice'')])])\<rparr>]\<rparr>,
      [])"
    using function_call_recorded [of ?e "''semantic_search''" "JObj [(''query'', JStr ''invoice'')]"
        example_inflight "[example_user]" example_assistant "[]", THEN conjunct1]
    by (simp add: call_event_def example_inflight_def)
  then have a: "function_calls (last (messages (fst (onEvent ?e (example_inflight, [])))))
    = Some [(''semantic_search'', JObj [(''query'', JStr ''invoice'')])]"
    by (simp add: example_assistant_def)
  have b: "onEvent (call_event ''function_call'' ''count_media'' (JNum 0)) (example_inflight, [])
       = (example_inflight, [])"
    using function_call_recorded [of "call_event ''function_call'' ''count_media'' (JNum 0)"
        _ _ example_inflight _ _ "[]", THEN conjunct2]
    by (simp add: call_event_def)
  have c: "onEvent (call_event ''function_call'' ''count_media'' JNull) (example_inflight, [])
       = (example_inflight, [])"
    using function_call_recorded [of "call_event ''function_call'' ''count_media'' JNull"
        _ _ example_inflight _ _ "[]", THEN conjunct2]
    by (simp add: call_event_def)
  show ?thesis
    by (intro conjI) (rule a b c)+
qed

text \<open>
  C4 as stated fails: the handler has no case for the type "tool_invocation", so such
  an event with a name and arguments records nothing.
\<close>

theorem tool_invocation_ignored_counterexample:
  "onEvent (call_event ''tool_invocation'' ''semantic_search'' (JObj [(''query'', JStr ''invoice'')]))
      (example_inflight, []) = (example_inflight, [])
   \<and> function_calls (last (messages example_inflight)) = None"
  by (simp add: onEvent_def call_event_def example_inflight_def example_assistant_def)

text \<open>
  C5 (as the code has it). An error event ends streaming and replaces the content of
  the last message by the event's message, or by the generic text when the message is
  absent or empty. A rejected request ends streaming and leaves the generic text,
  whatever events came before. When no text or error event follows the error event in
  the stream and the request then resolves, the text of the error event is what the
  message shows at the end.
\<close>

theorem error_replaces_content:
  "(ev_type e = ''error'' \<and> messages state = ms @ [m] \<longrightarrow>
      onEvent e (state, fullContent) =
        (state\<lparr>messages := ms @ [m\<lparr>content :=
              (case ev_message e of None \<Rightarrow> generic_error
               | Some t \<Rightarrow> if t = [] then generic_error else t)\<rparr>],
            isStreaming := False\<rparr>, fullContent))
   \<and> (currentConversation (store page) = Some conversation \<and> js_trim (input page) \<noteq> []
        \<and> \<not> isStreaming (store page)
        \<and> mutateAsync (conv_id conversation) (input page) = (events, Some err) \<longrightarrow>
      \<not> isStreaming (store (fst (sendMessage clock mutateAsync page)))
      \<and> content (last (messages (store (fst (sendMessage clock mutateAsync page)))))
           = generic_error)
   \<and> (currentConversation (store page) = Some conversation \<and> js_trim (input page) \<noteq> []
        \<and> \<not> isStreaming (store page)
        \<and> mutateAsync (conv_id conversation) (input page) = (before @ [e] @ after, None)
        \<and> ev_type e = ''error''
        \<and> (\<forall>e' \<in> set after. ev_type e' \<noteq> ''text'' \<and> ev_type e' \<noteq> ''error'') \<longrightarrow>
      \<not> isStreaming (store (fst (sendMessage clock mutateAsync page)))
      \<and> content (last (messages (store (fst (sendMessage clock mutateAsync page)))))
           = (case ev_message e of None \<Rightarrow> generic_error
              | Some t \<Rightarrow> if t = [] then generic_error else t))"
proof (intro conjI impI)
  assume "ev_type e = ''error'' \<and> messages state = ms @ [m]"
  then show "onEvent e (state, fullContent) =
        (state\<lparr>messages := ms @ [m\<lparr>content :=
              (case ev_message e of None \<Rightarrow> generic_error
               | Some t \<Rightarrow> if t = [] then generic_error else t)\<rparr>],
            isStreaming := False\<rparr>, fullContent)"
    by (simp add: onEvent_error)
next
  assume a: "currentConversation (store page) = Some conversation \<and> js_trim (input page) \<noteq> []
        \<and> \<not> isStreaming (store page)
        \<and> mutateAsync (conv_id conversation) (input page) = (events, Some err)"
  from a sendMessage_rejected [of page conversation mutateAsync events err clock]
  show "\<not> isStreaming (store (fst (sendMessage clock mutateAsync page)))" by blast
  from a sendMessage_rejected [of page conversation mutateAsync events err clock]
  show "content (last (messages (store (fst (sendMessage clock mutateAsync page)))))
           = generic_error" by blast
next
  assume a: "currentConversation (store page) = Some conversation \<and> js_trim (input page) \<noteq> []
        \<and> \<not> isStreaming (store page)
        \<and> mutateAsync (conv_id conversation) (input page) = (before @ [e] @ after, None)
        \<and> ev_type e = ''error''
        \<and> (\<forall>e' \<in> set after. ev_type e' \<noteq> ''text'' \<and> ev_type e' \<noteq> ''error'')"
  from a sendMessage_error_last [of page conversation mutateAsync before e after clock]
  show "\<not> isStreaming (store (fst (sendMessage clock mutateAsync page)))" by blast
  from a sendMessage_error_last [of page conversation mutateAsync before e after clock]
  show "content (last (messages (store (fst (sendMessage clock mutateAsync page)))))
           = (case ev_message e of None \<Rightarrow> generic_error
              | Some t \<Rightarrow> if t = [] then generic_error else t)" by blast
qed

theorem error_replaces_content_witness:
  "onEvent (error_event (Some ''boom'')) (example_inflight, ''partial'') =
     (example_inflight\<lparr>messages := [example_user, example_assistant\<lparr>content := ''boom''\<rparr>],
                       isStreaming := False\<rparr>, ''partial'')
   \<and> \<not> isStreaming (store (fst (sendMessage example_clock
           (\<lambda>c m. ([text_event (Some ''par'')], Some (FetchFailed :: Thrown))) example_page)))
   \<and> content (last (messages (store (fst (sendMessage example_clock
           (\<lambda>c m. ([text_event (Some ''par'')], Some (FetchFailed :: Thrown))) example_page)))))
        = ''Sorry, I encountered an error. Please try again.''
   \<and> \<not> isStreaming (store (fst (sendMessage example_clock
           (\<lambda>c m. ([text_event (Some ''par''), error_event None, done_event], None :: Thrown option))
           example_page)))
   \<and> content (last (messages (store (fst (sendMessage example_clock
           (\<lambda>c m. ([text_event (Some ''par''), error_event None, done_event], None :: Thrown option))
           example_page)))))
        = ''Sorry, I encountered an error. Please try again.''"
proof -
  let ?rej = "\<lambda>(c :: string) (m :: string). ([text_event (Some ''par'')], Some (FetchFailed :: Thrown))"
  let ?err = "\<lambda>(c :: string) (m :: string).
      ([text_event (Some ''par''), error_event None, done_event], None :: Thrown option)"
  have a: "onEvent (error_event (Some ''boom'')) (example_inflight, ''partial'') =
     (example_inflight\<lparr>messages := [example_user, example_assistant\<lparr>content := ''boom''\<rparr>],
                       isStreaming := False\<rparr>, ''partial'')"
    using error_replaces_content [of "error_event (Some ''boom'')" example_inflight "[example_user]"
        example_assistant "''partial''", THEN conjunct1]
    by (simp add: error_event_def example_inflight_def)
  have b: "\<not> isStreaming (store (fst (sendMessage example_clock ?rej example_page)))
     \<and> content (last (messages (store (fst (sendMessage example_clock ?rej example_page)))))
        = generic_error"
    using error_replaces_content [of _ _ _ _ _ example_page example_conversation ?rej
        "[text_event (Some ''par'')]" FetchFailed example_clock, THEN conjunct2, THEN conjunct1]
      example_guard
    by simp
  have c: "\<not> isStreaming (store (fst (sendMessage example_clock ?err example_page)))
     \<and> content (last (messages (store (fst (sendMessage example_clock ?err example_page)))))
        = generic_error"
    using error_replaces_content [of "error_event None" _ _ _ _ example_page example_conversation ?err
        _ _ _ "[text_event (Some ''par'')]" "[done_event]", THEN conjunct2, THEN conjunct2]
      example_guard
    by (simp add: error_event_def done_event_def)
  from a b c show ?thesis
    by (simp add: generic_error_def)
qed

text \<open>
  C5 as stated fails: a text event delivered after an error event in the same stream
  is still handled, and its delta replaces the error text.
\<close>

theorem text_after_error_counterexample:
  "content (last (messages (store (fst (sendMessage example_clock
      (\<lambda>c m. ([error_event (Some ''boom''), text_event (Some ''late'')],
               None :: Thrown option))
      example_page))))) = ''late''"
  by (simp add: sendMessage_def onEvents_def onEvent_def updateLastMessage_def map_idx_def
      addMessage_def setStreaming_def js_trim_def is_whitespace_def example_page_def
      example_clock_def example_conversation_def error_event_def text_event_def)

text \<open>
  The parts of \<^verbatim>\<open>sendMessage\<close> and the run of the client: the guard closes the first
  part; the steps that are quiet keep \<^verbatim>\<open>isStreaming\<close> and add no request; and one send
  whose events are all delivered before its promise settles, with nothing in between,
  leaves the page that \<open>sendMessage\<close> computes.
\<close>

lemma sendMessage_start_guard:
  "isStreaming (store page) \<or> (\<forall>c \<in> set (input page). is_whitespace c)
     \<or> currentConversation (store page) = None
   \<Longrightarrow> sendMessage_start clock page = None"
  by (auto simp: sendMessage_start_def js_trim_empty_iff split: option.splits)

lemma sendMessage_as_parts:
  "sendMessage clock mutateAsync page =
     (case sendMessage_start clock page of
        None \<Rightarrow> (page, [])
      | Some (page', conversationId, messageContent) \<Rightarrow>
          (page'\<lparr>store :=
             (case snd (mutateAsync conversationId messageContent) of
                None \<Rightarrow>
                  fst (onEvents (fst (mutateAsync conversationId messageContent)) (store page', []))
              | Some err \<Rightarrow>
                  sendMessage_catch
                    (fst (onEvents (fst (mutateAsync conversationId messageContent))
                            (store page', []))))\<rparr>,
           [(conversationId, messageContent)]))"
  by (simp add: sendMessage_def sendMessage_start_def sendMessage_catch_def Let_def
      case_prod_beta split: option.splits)

lemma onEvent_isStreaming:
  "ev_type e \<noteq> ''done'' \<Longrightarrow> ev_type e \<noteq> ''error'' \<Longrightarrow>
     isStreaming (fst (onEvent e (s, f))) = isStreaming s"
  by (auto simp: onEvent_def updateLastMessage_def addFunctionCallToLastMessage_def
      split: option.splits)

lemma step_quiet:
  assumes "isStreaming (store (client_page c))" and "quiet s"
  shows "isStreaming (store (client_page (step s c)))
       \<and> length (client_inflight (step s c)) \<le> length (client_inflight c)"
proof (cases s)
  case (Send clock)
  with assms sendMessage_start_guard [of "client_page c" clock] show ?thesis by simp
next
  case (SetInput newInput)
  with assms show ?thesis by simp
next
  case (Deliver k event)
  with assms onEvent_isStreaming [of event "store (client_page c)"
      "sent_fullContent (client_inflight c ! k)"]
  show ?thesis by (simp add: Let_def case_prod_beta)
next
  case (Settle k thrown)
  with assms show ?thesis by simp
next
  case (LoadMessages ms)
  with assms show ?thesis by (simp add: setMessages_def)
next
  case (SelectConversation conversation)
  with assms show ?thesis by (simp add: setCurrentConversation_def)
qed

lemma run_Nil: "run [] c = c"
  by (simp add: run_def)

lemma run_Cons: "run (s # steps) c = run steps (step s c)"
  by (simp add: run_def)

lemma run_append: "run (xs @ ys) c = run ys (run xs c)"
  by (simp add: run_def)

lemma run_quiet:
  assumes "isStreaming (store (client_page c))" and "\<forall>s \<in> set steps. quiet s"
  shows "isStreaming (store (client_page (run steps c)))
       \<and> length (client_inflight (run steps c)) \<le> length (client_inflight c)"
  using assms
proof (induction steps arbitrary: c)
  case Nil
  then show ?case by (simp add: run_Nil)
next
  case (Cons s steps)
  from Cons.prems have q: "quiet s" and rest: "\<forall>s \<in> set steps. quiet s" by simp_all
  from step_quiet [OF Cons.prems(1) q]
  have s1: "isStreaming (store (client_page (step s c)))"
    and l1: "length (client_inflight (step s c)) \<le> length (client_inflight c)"
    by simp_all
  from Cons.IH [OF s1 rest] l1 show ?case
    by (simp add: run_Cons)
qed

lemma run_deliveries:
  "client_inflight c = [r] \<Longrightarrow>
     run (map (Deliver 0) events) c =
       c\<lparr>client_page :=
           (client_page c)\<lparr>store := fst (onEvents events (store (client_page c), sent_fullContent r))\<rparr>,
         client_inflight :=
           [r\<lparr>sent_fullContent := snd (onEvents events (store (client_page c), sent_fullContent r))\<rparr>]\<rparr>"
proof (induction events arbitrary: c r)
  case Nil
  then show ?case by (simp add: run_Nil onEvents_Nil)
next
  case (Cons e es)
  obtain s1 f1 where o: "onEvent e (store (client_page c), sent_fullContent r) = (s1, f1)"
    by (cases "onEvent e (store (client_page c), sent_fullContent r)")
  let ?c1 = "step (Deliver 0 e) c"
  have c1: "?c1 = c\<lparr>client_page := (client_page c)\<lparr>store := s1\<rparr>,
                  client_inflight := [r\<lparr>sent_fullContent := f1\<rparr>]\<rparr>"
    using Cons.prems o by simp
  then have "client_inflight ?c1 = [r\<lparr>sent_fullContent := f1\<rparr>]" by simp
  from Cons.IH [OF this] c1 o show ?case
    by (simp add: run_Cons onEvents_Cons)
qed

lemma sendMessage_is_run:
  assumes "client_inflight c = []"
  shows "client_page (run (Send clock # map (Deliver 0) events @ [Settle 0 thrown]) c)
           = fst (sendMessage clock (\<lambda>conversationId message. (events, thrown)) (client_page c))"
proof (cases "sendMessage_start clock (client_page c)")
  case None
  then have "step (Send clock) c = c" by simp
  moreover have "run (map (Deliver 0) events) c = c"
    using assms by (induction events) (simp_all add: run_Nil run_Cons)
  ultimately show ?thesis
    using assms None by (simp add: run_Cons run_append run_Nil sendMessage_as_parts)
next
  case (Some t)
  obtain p cid msg where t: "t = (p, cid, msg)" by (cases t)
  let ?r = "\<lparr>sent_conversation = cid, sent_message = msg, sent_fullContent = []\<rparr>"
  let ?c1 = "c\<lparr>client_page := p, client_inflight := [?r]\<rparr>"
  have c1: "step (Send clock) c = ?c1"
    using Some t assms by simp
  have "client_inflight ?c1 = [?r]" by simp
  from run_deliveries [OF this, of events]
  have "run (map (Deliver 0) events) ?c1 =
      ?c1\<lparr>client_page := p\<lparr>store := fst (onEvents events (store p, []))\<rparr>,
          client_inflight := [?r\<lparr>sent_fullContent := snd (onEvents events (store p, []))\<rparr>]\<rparr>"
    by simp
  then show ?thesis
    using Some t c1 by (cases thrown) (simp_all add: run_Cons run_append run_Nil sendMessage_as_parts)
qed

text \<open>
  C6 (as the code has it). While a reply is streaming, or the input is empty or only
  whitespace, or no conversation is selected, \<^verbatim>\<open>sendMessage\<close> issues no request and
  leaves the page as it is. So from a state in which \<^verbatim>\<open>isStreaming\<close> is true, as long as
  no done or error event is handled and no request is rejected, \<^verbatim>\<open>isStreaming\<close> stays
  true and the number of requests in flight does not grow, whatever else is sent, typed,
  delivered, resolved, loaded or selected.
\<close>

theorem sendMessage_guard:
  "(isStreaming (store page) \<or> (\<forall>c \<in> set (input page). is_whitespace c)
      \<or> currentConversation (store page) = None
    \<longrightarrow> sendMessage clock mutateAsync page = (page, [])
        \<and> step (Send clock) \<lparr>client_page = page, client_inflight = sent\<rparr>
            = \<lparr>client_page = page, client_inflight = sent\<rparr>)
   \<and> (isStreaming (store (client_page c)) \<and> (\<forall>s \<in> set steps. quiet s)
    \<longrightarrow> isStreaming (store (client_page (run steps c)))
        \<and> length (client_inflight (run steps c)) \<le> length (client_inflight c))"
proof (intro conjI impI)
  assume g: "isStreaming (store page) \<or> (\<forall>c \<in> set (input page). is_whitespace c)
      \<or> currentConversation (store page) = None"
  then have n: "sendMessage_start clock page = None"
    by (rule sendMessage_start_guard)
  then show "sendMessage clock mutateAsync page = (page, [])"
    by (simp add: sendMessage_as_parts)
  from n show "step (Send clock) \<lparr>client_page = page, client_inflight = sent\<rparr>
            = \<lparr>client_page = page, client_inflight = sent\<rparr>"
    by simp
next
  assume a: "isStreaming (store (client_page c)) \<and> (\<forall>s \<in> set steps. quiet s)"
  then show "isStreaming (store (client_page (run steps c)))"
    using run_quiet [of c steps] by simp
  from a show "length (client_inflight (run steps c)) \<le> length (client_inflight c)"
    using run_quiet [of c steps] by simp
qed

theorem sendMessage_guard_witness:
  "sendMessage example_clock (\<lambda>c m. ([text_event (Some ''hi'')], None))
      (example_page\<lparr>store := example_inflight\<rparr>) = (example_page\<lparr>store := example_inflight\<rparr>, [])
   \<and> sendMessage example_clock (\<lambda>c m. ([text_event (Some ''hi'')], None))
      (example_page\<lparr>input := [CHR 0x20, CHR 0x09, CHR 0x0A]\<rparr>)
        = (example_page\<lparr>input := [CHR 0x20, CHR 0x09, CHR 0x0A]\<rparr>, [])
   \<and> length (client_inflight (run
        [Send example_clock, Deliver 0 (text_event (Some ''Hel'')), SetInput ''again'',
         Send example_clock, Deliver 0 (text_event (Some ''lo'')), Send example_clock]
        example_streaming)) \<le> 1
   \<and> isStreaming (store (client_page (run
        [Send example_clock, Deliver 0 (text_event (Some ''Hel'')), SetInput ''again'',
         Send example_clock, Deliver 0 (text_event (Some ''lo'')), Send example_clock]
        example_streaming)))"
proof -
  let ?mut = "\<lambda>(c :: string) (m :: string). ([text_event (Some ''hi'')], None :: Thrown option)"
  let ?steps = "[Send example_clock, Deliver 0 (text_event (Some ''Hel'')), SetInput ''again'',
         Send example_clock, Deliver 0 (text_event (Some ''lo'')), Send example_clock]"
  have a: "isStreaming (store (example_page\<lparr>store := example_inflight\<rparr>))
      \<or> (\<forall>c \<in> set (input (example_page\<lparr>store := example_inflight\<rparr>)). is_whitespace c)
      \<or> currentConversation (store (example_page\<lparr>store := example_inflight\<rparr>)) = None"
    by (simp add: example_inflight_def)
  have b: "isStreaming (store (example_page\<lparr>input := [CHR 0x20, CHR 0x09, CHR 0x0A]\<rparr>))
      \<or> (\<forall>c \<in> set (input (example_page\<lparr>input := [CHR 0x20, CHR 0x09, CHR 0x0A]\<rparr>)). is_whitespace c)
      \<or> currentConversation (store (example_page\<lparr>input := [CHR 0x20, CHR 0x09, CHR 0x0A]\<rparr>)) = None"
    by (simp add: is_whitespace_def)
  have q: "isStreaming (store (client_page example_streaming)) \<and> (\<forall>s \<in> set ?steps. quiet s)"
    by (simp add: example_streaming_def example_inflight_def text_event_def)
  have l: "length (client_inflight example_streaming) = 1"
    by (simp add: example_streaming_def)
  have w1: "sendMessage example_clock ?mut (example_page\<lparr>store := example_inflight\<rparr>)
      = (example_page\<lparr>store := example_inflight\<rparr>, [])"
    using sendMessage_guard [of "example_page\<lparr>store := example_inflight\<rparr>" example_clock ?mut,
        THEN conjunct1, rule_format, OF a]
    by simp
  have w2: "sendMessage example_clock ?mut (example_page\<lparr>input := [CHR 0x20, CHR 0x09, CHR 0x0A]\<rparr>)
      = (example_page\<lparr>input := [CHR 0x20, CHR 0x09, CHR 0x0A]\<rparr>, [])"
    using sendMessage_guard [of "example_page\<lparr>input := [CHR 0x20, CHR 0x09, CHR 0x0A]\<rparr>"
        example_clock ?mut, THEN conjunct1, rule_format, OF b]
    by simp
  have w3: "isStreaming (store (client_page (run ?steps example_streaming)))
      \<and> length (client_inflight (run ?steps example_streaming)) \<le> length (client_inflight example_streaming)"
    by (rule sendMessage_guard [of _ _ _ _ example_streaming ?steps, THEN conjunct2, rule_format, OF q])
  from w1 w2 w3 l show ?thesis by simp
qed

text \<open>
  C6 as stated fails: a done event sets \<^verbatim>\<open>isStreaming\<close> to false while its request is
  still being read, so a second send for the same conversation is issued with the first
  still in flight.
\<close>

theorem second_request_in_flight_counterexample:
  "map sent_conversation (client_inflight (run
      [Send example_clock, Deliver 0 done_event, SetInput ''and my receipts'', Send example_clock]
      example_client)) = [''c1'', ''c1'']"
  by (simp add: run_def sendMessage_start_def onEvent_def addMessage_def setStreaming_def
      js_trim_def is_whitespace_def example_client_def example_page_def example_clock_def
      example_conversation_def done_event_def Let_def)


section \<open>Properties of the API client\<close>

lemma split_newline_not_Nil: "split_newline s \<noteq> []"
  by (induction s) (auto split: list.splits)

lemma split_newline_no_LF: "CHR 0x0A \<notin> set s \<Longrightarrow> split_newline s = [s]"
  by (induction s) auto

lemma split_newline_line:
  "CHR 0x0A \<notin> set l \<Longrightarrow> split_newline (l @ CHR 0x0A # rest) = l # split_newline rest"
  by (induction l) auto

lemma split_newline_pieces: "l \<in> set (split_newline s) \<Longrightarrow> CHR 0x0A \<notin> set l"
proof (induction s arbitrary: l)
  case Nil
  then show ?case by simp
next
  case (Cons c cs)
  show ?case
  proof (cases "c = CHR 0x0A")
    case True
    with Cons show ?thesis by auto
  next
    case False
    obtain p ps where ps: "split_newline cs = p # ps"
      using split_newline_not_Nil [of cs] by (cases "split_newline cs") auto
    with False Cons.prems have "l = c # p \<or> l \<in> set ps" by simp
    with Cons.IH [of p] Cons.IH [of l] ps False show ?thesis by auto
  qed
qed

lemma split_newline_append:
  "split_newline (a @ b) =
     butlast (split_newline a) @ split_newline (last (split_newline a) @ b)"
proof (induction a)
  case Nil
  then show ?case by simp
next
  case (Cons c cs)
  obtain p ps where ps: "split_newline cs = p # ps"
    using split_newline_not_Nil [of cs] by (cases "split_newline cs") auto
  show ?case
  proof (cases "c = CHR 0x0A")
    case True
    with Cons ps show ?thesis by simp
  next
    case False
    show ?thesis
    proof (cases ps)
      case Nil
      with Cons ps False show ?thesis by simp
    next
      case (Cons q qs)
      with Cons.IH ps False show ?thesis by simp
    qed
  qed
qed

lemma map_filter_append:
  "List.map_filter f (xs @ ys) = List.map_filter f xs @ List.map_filter f ys"
  by (simp add: List.map_filter_def)

lemma read_loop_lines:
  "CHR 0x0A \<notin> set buffer \<Longrightarrow>
     read_loop parse buffer chunks =
       List.map_filter (process_line parse) (butlast (split_newline (buffer @ concat chunks)))"
proof (induction chunks arbitrary: buffer)
  case Nil
  then show ?case by (simp add: split_newline_no_LF List.map_filter_def)
next
  case (Cons chunk rest)
  let ?lines = "split_newline (buffer @ chunk)"
  have ne: "?lines \<noteq> []" by (rule split_newline_not_Nil)
  then have "last ?lines \<in> set ?lines" by simp
  then have "CHR 0x0A \<notin> set (last ?lines)" by (rule split_newline_pieces)
  from Cons.IH [OF this]
  have "read_loop parse (last ?lines) rest =
      List.map_filter (process_line parse) (butlast (split_newline (last ?lines @ concat rest)))" .
  moreover have "split_newline (buffer @ concat (chunk # rest)) =
      butlast ?lines @ split_newline (last ?lines @ concat rest)"
    using split_newline_append [of "buffer @ chunk" "concat rest"] by simp
  ultimately show ?case
    using ne by (simp add: Let_def butlast_append split_newline_not_Nil map_filter_append)
qed

lemma split_newline_lines:
  "\<forall>l \<in> set ls. CHR 0x0A \<notin> set l \<Longrightarrow> CHR 0x0A \<notin> set tail \<Longrightarrow>
     split_newline (concat (map (\<lambda>l. l @ [CHR 0x0A]) ls) @ tail) = ls @ [tail]"
  by (induction ls) (simp_all add: split_newline_no_LF split_newline_line)

lemma process_line_Some:
  "process_line parse line = Some e \<longleftrightarrow>
     startsWith (js_trim line) ''data: ''
     \<and> js_trim (slice (js_trim line) 6) \<noteq> ''[DONE]''
     \<and> parse (js_trim (slice (js_trim line) 6)) = Some e"
  by (simp add: process_line_def Let_def)

text \<open>
  C8 (as the code has it). The events delivered depend only on the concatenation of the
  chunks. When the text is a sequence of lines, each ended by a line feed, followed by a
  rest without line feed, the events are those of the lines, in order, and the rest
  delivers nothing. A line delivers an event exactly when, trimmed of surrounding
  whitespace, it starts with "data: ", its trimmed payload is not "[DONE]", and the
  payload parses; any other line is skipped and the lines after it are still processed.
\<close>

theorem sse_parser_chunking_invariant:
  "(concat chunks = concat chunks' \<longrightarrow> read_loop parse [] chunks = read_loop parse [] chunks')
   \<and> read_loop parse [] chunks = read_loop parse [] [concat chunks]
   \<and> ((\<forall>l \<in> set ls. CHR 0x0A \<notin> set l) \<and> CHR 0x0A \<notin> set tail
        \<and> concat chunks = concat (map (\<lambda>l. l @ [CHR 0x0A]) ls) @ tail
       \<longrightarrow> read_loop parse [] chunks = List.map_filter (process_line parse) ls)
   \<and> (process_line parse line = Some e \<longleftrightarrow>
         startsWith (js_trim line) ''data: ''
         \<and> js_trim (slice (js_trim line) 6) \<noteq> ''[DONE]''
         \<and> parse (js_trim (slice (js_trim line) 6)) = Some e)
   \<and> (ok response \<and> body response = Some (chunks, ended)
       \<longrightarrow> fst (api_sendMessage parse (Resolved response)) = read_loop parse [] [concat chunks])"
proof -
  have lines: "\<And>cs. read_loop parse [] cs =
      List.map_filter (process_line parse) (butlast (split_newline (concat cs)))"
    using read_loop_lines [of "[]" parse] by simp
  have inv: "concat chunks = concat chunks' \<longrightarrow> read_loop parse [] chunks = read_loop parse [] chunks'"
    by (simp add: lines)
  have one: "read_loop parse [] chunks = read_loop parse [] [concat chunks]"
    by (simp only: lines) simp
  have complete: "(\<forall>l \<in> set ls. CHR 0x0A \<notin> set l) \<and> CHR 0x0A \<notin> set tail
        \<and> concat chunks = concat (map (\<lambda>l. l @ [CHR 0x0A]) ls) @ tail
       \<longrightarrow> read_loop parse [] chunks = List.map_filter (process_line parse) ls"
    by (simp add: lines split_newline_lines)
  have api: "ok response \<and> body response = Some (chunks, ended)
       \<longrightarrow> fst (api_sendMessage parse (Resolved response)) = read_loop parse [] [concat chunks]"
    using one by (simp add: api_sendMessage_def)
  show ?thesis
    by (intro conjI) (rule inv one complete process_line_Some api)+
qed

theorem sse_parser_chunking_invariant_witness:
  "read_loop (\<lambda>d. if d = ''x'' then None else Some d) []
      [''data: a'', CHR 0x0A # ''data: x'' @ CHR 0x0A # ''da'',
       ''ta: [DONE]'' @ CHR 0x0A # ''data: c'' @ CHR 0x0A # ''data: b'']
     = [''a'', ''c'']
   \<and> read_loop (\<lambda>d. if d = ''x'' then None else Some d) []
      [''data: a'' @ CHR 0x0A # ''data: x'' @ CHR 0x0A # ''data: [DONE]'' @ CHR 0x0A # ''data: c''
        @ CHR 0x0A # ''data: b'']
     = [''a'', ''c'']"
proof -
  let ?parse = "\<lambda>d. if d = ''x'' then None else Some d"
  let ?chunks = "[''data: a'', CHR 0x0A # ''data: x'' @ CHR 0x0A # ''da'',
       ''ta: [DONE]'' @ CHR 0x0A # ''data: c'' @ CHR 0x0A # ''data: b'']"
  let ?ls = "[''data: a'', ''data: x'', ''data: [DONE]'', ''data: c'']"
  note t = sse_parser_chunking_invariant [of ?chunks _ ?parse ?ls "''data: b''"]
  have h: "(\<forall>l \<in> set ?ls. CHR 0x0A \<notin> set l) \<and> CHR 0x0A \<notin> set ''data: b''
        \<and> concat ?chunks = concat (map (\<lambda>l. l @ [CHR 0x0A]) ?ls) @ ''data: b''"
    by simp
  have ev: "List.map_filter (process_line ?parse) ?ls = [''a'', ''c'']"
    by (simp add: List.map_filter_def process_line_def js_trim_def startsWith_def slice_def
        is_whitespace_def)
  have a: "read_loop ?parse [] ?chunks = [''a'', ''c'']"
    using t [THEN conjunct2, THEN conjunct2, THEN conjunct1] h ev by simp
  have "read_loop ?parse [] [concat ?chunks] = [''a'', ''c'']"
    using t [THEN conjunct2, THEN conjunct1] a by simp
  with a show ?thesis by simp
qed

text \<open>
  C8 as stated fails: a line that starts with whitespace does not start with "data: ",
  yet it is trimmed first and its payload is parsed and delivered.
\<close>

theorem sse_leading_whitespace_counterexample:
  "read_loop Some [] [''  data: 7'' @ [CHR 0x0A]] = [''7'']
   \<and> \<not> startsWith ''  data: 7'' ''data: ''"
  by (simp add: List.map_filter_def process_line_def js_trim_def startsWith_def slice_def
      is_whitespace_def)

text \<open>
  \<^verbatim>\<open>api.request\<close> returns the response exactly when it is ok; a 401 logs out and throws
  an \<^verbatim>\<open>ApiError\<close>; any other response that is not ok throws an \<^verbatim>\<open>ApiError\<close> with the status
  and the detail or the fallback message, provided the body is not the JSON value null.
\<close>

lemma api_request_returns_iff_ok:
  "(\<exists>r. fst (api_request (Resolved response) browser) = Inr r) \<longleftrightarrow> ok response"
  by (auto simp: api_request_def ok_def Let_def split: option.splits)

lemma api_request_returns_unchanged:
  "ok response \<Longrightarrow> api_request (Resolved response) browser = (Inr response, browser)"
  by (auto simp: api_request_def ok_def)

lemma api_request_unauthorized:
  "http_status response = 401 \<Longrightarrow>
     api_request (Resolved response) browser =
       (Inl (ApiError 401 (JStr ''Unauthorized'')),
        browser\<lparr>auth := (auth browser)\<lparr>token := None, isAuthenticated := False\<rparr>,
                location_href := ''/login''\<rparr>)"
  by (simp add: api_request_def logout_def)

lemma api_request_error_detail:
  assumes "\<not> ok response" and "http_status response \<noteq> 401"
    and "body_json response \<noteq> Some JNull"
  shows "api_request (Resolved response) browser =
     (Inl (ApiError (http_status response)
        (case body_json response of
           None \<Rightarrow> JStr ''An error occurred''
         | Some j \<Rightarrow>
             (case get_detail j of
                Some (Some d) \<Rightarrow> if truthy d then d else JStr ''An error occurred''
              | _ \<Rightarrow> JStr ''An error occurred''))),
      browser)"
proof (cases "body_json response")
  case None
  with assms show ?thesis by (simp add: api_request_def)
next
  case (Some j)
  with assms have "j \<noteq> JNull" by simp
  then have "get_detail j \<noteq> None" by (cases j) simp_all
  with assms Some show ?thesis
    by (auto simp: api_request_def split: option.splits)
qed

text \<open>
  C9. On a response that is not ok and whose body is the JSON value null, reading
  \<^verbatim>\<open>error.detail\<close> throws a TypeError: no \<^verbatim>\<open>ApiError\<close> with the status is thrown.
\<close>

theorem api_request_null_body_throws_TypeError:
  "api_request (Resolved \<lparr>http_status = 500, body = None, body_json = Some JNull\<rparr>) browser
     = (Inl TypeError, browser)"
  by (simp add: api_request_def ok_def)

end
